theory Spec2Isabelle
  imports Complex_Main "HOL-Library.Log_Nat" "HOL-Library.AList" "HOL-Library.Multiset"
begin

section \<open>The Kiln datamodel (kiln\_ai/datamodel/\_\_init\_\_.py)\<close>

text \<open>
  A shallow embedding of the validators and of the dataset split builder of
  \<^verbatim>\<open>src/libs/core/kiln_ai/datamodel/__init__.py\<close>.

  Conventions.
  \<^item> A pydantic model is a record; only the fields that the modelled functions read
    or write are kept. Where two classes use one field name, the record fields are
    prefixed (\<open>rr_value\<close> for \<^verbatim>\<open>RequirementRating.value\<close>,
    \<open>rating_value\<close> for \<^verbatim>\<open>TaskOutputRating.value\<close>, \<open>output_field\<close> for
    \<^verbatim>\<open>TaskOutput.output\<close>, \<open>run_output\<close> for \<^verbatim>\<open>TaskRun.output\<close>, \<open>id_field\<close> for
    \<^verbatim>\<open>id\<close>).
  \<^item> A \<^verbatim>\<open>raise ValueError(...)\<close> is \<open>Inl e\<close>, with one constructor of an
    error datatype for each raise site; a validator that returns \<^verbatim>\<open>self\<close>
    returns \<open>Inr self\<close>.
  \<^item> A \<^verbatim>\<open>dict\<close> is an association list in insertion order; lookups read it
    with \<open>map_of\<close>, assignments write it with \<open>AList.update\<close> (replace in place,
    else append), iteration follows the list.
  \<^item> A method whose name starts with an underscore carries the prefix \<open>us_\<close>.
  \<^item> \<^verbatim>\<open>ID_TYPE\<close> is declared in \<^verbatim>\<open>basemodel\<close>; it is the type parameter \<open>'id\<close>.
\<close>

subsection \<open>Python floats\<close>

text \<open>
  A finite \<^verbatim>\<open>float\<close> is modelled by its exact value, a rational number;
  \<open>pyfloat\<close> adds the three non-finite values. CPython computes \<^verbatim>\<open>a * b\<close>,
  \<^verbatim>\<open>a + b\<close>, \<^verbatim>\<open>a - b\<close> and \<^verbatim>\<open>float(n)\<close> as the exact result rounded to
  the nearest IEEE-754 binary64 number, ties to the even significand:
  \<open>round_binary64\<close>. The significand has 53 bits; below \<open>2 powi -1022\<close> the spacing
  stays \<open>2 powi -1074\<close> (subnormal numbers). Overflow to infinity is not modelled: the
  operands here are percentages between 0 and 1, their sums, and list lengths.
\<close>

datatype pyfloat = Finite rat | PosInf | NegInf | NaN

definition py_round :: "rat \<Rightarrow> int" where
  \<comment> \<open>\<^verbatim>\<open>round(x)\<close> of a float: the nearest integer, a tie goes to the even one\<close>
  "py_round x =
     (let f = \<lfloor>x\<rfloor>; r = x - of_int f
      in if r < 1 / 2 then f else if 1 / 2 < r then f + 1 else if even f then f else f + 1)"

definition flog2 :: "rat \<Rightarrow> int" where
  \<comment> \<open>for \<open>0 < x\<close>: the exponent \<open>e\<close> with \<open>2 powi e \<le> x < 2 powi (e + 1)\<close>\<close>
  "flog2 x =
     (let (a, b) = quotient_of x; k = bitlen a - bitlen b
      in if 2 powi k \<le> x then k else k - 1)"

definition round_binary64 :: "rat \<Rightarrow> rat" where
  "round_binary64 x =
     (if x = 0 then 0
      else let q = 2 powi (max (flog2 \<bar>x\<bar>) (- 1022) - 52)
           in of_int (py_round (x / q)) * q)"

definition fmul :: "rat \<Rightarrow> rat \<Rightarrow> rat" where
  "fmul a b = round_binary64 (a * b)"

definition fadd :: "rat \<Rightarrow> rat \<Rightarrow> rat" where
  "fadd a b = round_binary64 (a + b)"

definition fsub :: "rat \<Rightarrow> rat \<Rightarrow> rat" where
  "fsub a b = round_binary64 (a - b)"

definition float_of_int :: "int \<Rightarrow> rat" where
  \<comment> \<open>the conversion of the left operand in \<^verbatim>\<open>int * float\<close>\<close>
  "float_of_int n = round_binary64 (of_int n)"

definition py_sum :: "rat list \<Rightarrow> rat" where
  \<comment> \<open>\<^verbatim>\<open>sum(...)\<close> over floats: starts from the integer 0 and adds from the left,
      rounding after each addition (CPython before 3.12; later versions compensate the
      rounding errors, which changes no sum used below)\<close>
  "py_sum xs = foldl fadd 0 xs"

definition isclose :: "rat \<Rightarrow> rat \<Rightarrow> rat \<Rightarrow> bool" where
  \<comment> \<open>\<^verbatim>\<open>math.isclose(a, b, rel_tol=rel_tol)\<close> with the default \<^verbatim>\<open>abs_tol=0.0\<close>, on
      finite arguments, as CPython's \<^verbatim>\<open>math_isclose_impl\<close> computes it\<close>
  "isclose a b rel_tol =
     (if a = b then True
      else let diff = \<bar>fsub b a\<bar>
           in (diff \<le> \<bar>fmul rel_tol b\<bar> \<or> diff \<le> \<bar>fmul rel_tol a\<bar>) \<or> diff \<le> 0)"

fun is_integer :: "pyfloat \<Rightarrow> bool" where
  \<comment> \<open>\<^verbatim>\<open>float.is_integer()\<close>\<close>
  "is_integer (Finite q) = (of_int \<lfloor>q\<rfloor> = q)"
| "is_integer PosInf = False"
| "is_integer NegInf = False"
| "is_integer NaN = False"

fun float_less :: "pyfloat \<Rightarrow> pyfloat \<Rightarrow> bool" where
  \<comment> \<open>\<^verbatim>\<open>a < b\<close>; every comparison with NaN is false\<close>
  "float_less NaN _ = False"
| "float_less _ NaN = False"
| "float_less (Finite a) (Finite b) = (a < b)"
| "float_less NegInf NegInf = False"
| "float_less NegInf _ = True"
| "float_less _ NegInf = False"
| "float_less PosInf _ = False"
| "float_less _ PosInf = True"

fun float_eq :: "pyfloat \<Rightarrow> pyfloat \<Rightarrow> bool" where
  \<comment> \<open>\<^verbatim>\<open>a == b\<close>, the test behind \<^verbatim>\<open>x in [...]\<close>\<close>
  "float_eq NaN _ = False"
| "float_eq _ NaN = False"
| "float_eq a b = (a = b)"

subsection \<open>Python slices\<close>

definition py_index :: "nat \<Rightarrow> int \<Rightarrow> nat" where
  \<comment> \<open>a slice bound against a list of length \<open>n\<close>: negative bounds count from the
      end, and every bound is clipped to \<open>0..n\<close>\<close>
  "py_index n i = (if i < 0 then nat (max (i + int n) 0) else nat (min i (int n)))"

definition py_slice :: "'a list \<Rightarrow> int \<Rightarrow> int \<Rightarrow> 'a list" where
  \<comment> \<open>\<^verbatim>\<open>xs[a:b]\<close>\<close>
  "py_slice xs a b =
     (let lo = py_index (length xs) a; hi = py_index (length xs) b
      in take (hi - lo) (drop lo xs))"

definition py_slice_from :: "'a list \<Rightarrow> int \<Rightarrow> 'a list" where
  \<comment> \<open>\<^verbatim>\<open>xs[a:]\<close>\<close>
  "py_slice_from xs a = drop (py_index (length xs) a) xs"

subsection \<open>Ratings\<close>

datatype TaskOutputRatingType = five_star | pass_fail | pass_fail_critical | custom

record RequirementRating =
  rr_value :: pyfloat
  rr_type :: TaskOutputRatingType

record 'id TaskOutputRating =
  rating_type :: TaskOutputRatingType
  rating_value :: "pyfloat option"
  requirement_ratings :: "('id \<times> RequirementRating) list"

datatype 'id rating_name = overall_rating | requirement_rating 'id

datatype 'id rating_error =
    five_star_must_be_integer "'id rating_name"
  | five_star_must_be_between_1_and_5 "'id rating_name"
  | pass_fail_must_be_integer "'id rating_name"
  | pass_fail_must_be_0_or_1 "'id rating_name"
  | pass_fail_critical_must_be_integer "'id rating_name"
  | pass_fail_critical_must_be_m1_0_or_1 "'id rating_name"

text \<open>
  The three checks take \<^verbatim>\<open>rating: float | None\<close>. The test
  \<^verbatim>\<open>not isinstance(rating, float)\<close> is false for every value of that type other
  than \<^verbatim>\<open>None\<close>, which the first disjunct has caught.
\<close>

definition us_validate_five_star ::
  "pyfloat option \<Rightarrow> 'id rating_name \<Rightarrow> 'id rating_error + unit" where
  "us_validate_five_star rating rating_name =
     (case rating of
        None \<Rightarrow> Inl (five_star_must_be_integer rating_name)
      | Some r \<Rightarrow>
          if \<not> is_integer r then Inl (five_star_must_be_integer rating_name)
          else if float_less r (Finite 1) \<or> float_less (Finite 5) r
            then Inl (five_star_must_be_between_1_and_5 rating_name)
          else Inr ())"

definition us_validate_pass_fail ::
  "pyfloat option \<Rightarrow> 'id rating_name \<Rightarrow> 'id rating_error + unit" where
  "us_validate_pass_fail rating rating_name =
     (case rating of
        None \<Rightarrow> Inl (pass_fail_must_be_integer rating_name)
      | Some r \<Rightarrow>
          if \<not> is_integer r then Inl (pass_fail_must_be_integer rating_name)
          else if \<not> (float_eq r (Finite 0) \<or> float_eq r (Finite 1))
            then Inl (pass_fail_must_be_0_or_1 rating_name)
          else Inr ())"

definition us_validate_pass_fail_critical ::
  "pyfloat option \<Rightarrow> 'id rating_name \<Rightarrow> 'id rating_error + unit" where
  "us_validate_pass_fail_critical rating rating_name =
     (case rating of
        None \<Rightarrow> Inl (pass_fail_critical_must_be_integer rating_name)
      | Some r \<Rightarrow>
          if \<not> is_integer r then Inl (pass_fail_critical_must_be_integer rating_name)
          else if \<not> (float_eq r (Finite (- 1)) \<or> float_eq r (Finite 0) \<or> float_eq r (Finite 1))
            then Inl (pass_fail_critical_must_be_m1_0_or_1 rating_name)
          else Inr ())"

fun us_validate_rating ::
  "TaskOutputRatingType \<Rightarrow> pyfloat option \<Rightarrow> 'id rating_name \<Rightarrow> 'id rating_error + unit" where
  "us_validate_rating five_star rating rating_name = us_validate_five_star rating rating_name"
| "us_validate_rating pass_fail rating rating_name = us_validate_pass_fail rating rating_name"
| "us_validate_rating pass_fail_critical rating rating_name =
     us_validate_pass_fail_critical rating rating_name"
| "us_validate_rating custom rating rating_name = Inr ()"

fun validate_requirement_ratings ::
  "('id \<times> RequirementRating) list \<Rightarrow> 'id rating_error + unit" where
  \<comment> \<open>the loop over \<^verbatim>\<open>self.requirement_ratings.items()\<close>\<close>
  "validate_requirement_ratings [] = Inr ()"
| "validate_requirement_ratings ((req_id, req_rating) # rest) =
     (case us_validate_rating (rr_type req_rating) (Some (rr_value req_rating))
             (requirement_rating req_id) of
        Inl e \<Rightarrow> Inl e
      | Inr _ \<Rightarrow> validate_requirement_ratings rest)"

definition validate_rating :: "'id TaskOutputRating \<Rightarrow> 'id rating_error + 'id TaskOutputRating" where
  \<comment> \<open>\<^verbatim>\<open>self.type not in TaskOutputRatingType\<close> is false for each of the four members,
      so the first raise has no branch here\<close>
  "validate_rating self =
     (case (case rating_value self of
              None \<Rightarrow> Inr ()
            | Some v \<Rightarrow> us_validate_rating (rating_type self) (Some v) overall_rating) of
        Inl e \<Rightarrow> Inl e
      | Inr _ \<Rightarrow>
          (case validate_requirement_ratings (requirement_ratings self) of
             Inl e \<Rightarrow> Inl e
           | Inr _ \<Rightarrow> Inr self))"

definition is_high_quality :: "'id TaskOutputRating \<Rightarrow> bool" where
  "is_high_quality self =
     (case rating_value self of
        None \<Rightarrow> False
      | Some v \<Rightarrow>
          (case rating_type self of
             five_star \<Rightarrow> float_less (Finite 4) v \<or> float_eq v (Finite 4)
           | pass_fail \<Rightarrow> float_eq v (Finite 1)
           | pass_fail_critical \<Rightarrow> float_eq v (Finite 1)
           | custom \<Rightarrow> False))"

subsection \<open>The legacy format of requirement ratings\<close>

text \<open>
  \<^verbatim>\<open>upgrade_old_format\<close> is a \<^verbatim>\<open>mode="before"\<close> validator: it receives the raw
  constructor argument, before any field is parsed. \<open>pyobj\<close> is the part of Python's
  values that such an argument is built from.
\<close>

datatype pyobj =
    py_None
  | py_bool bool
  | py_int int
  | py_float pyfloat
  | py_str string
  | py_list "pyobj list"
  | py_dict "(string \<times> pyobj) list"
  | py_rating_type TaskOutputRatingType
  | py_requirement_rating RequirementRating

fun truthy :: "pyobj \<Rightarrow> bool" where
  \<comment> \<open>the truth value that \<^verbatim>\<open>x and ...\<close> tests\<close>
  "truthy py_None = False"
| "truthy (py_bool b) = b"
| "truthy (py_int i) = (i \<noteq> 0)"
| "truthy (py_float f) = (f \<noteq> Finite 0)"
| "truthy (py_str s) = (s \<noteq> [])"
| "truthy (py_list xs) = (xs \<noteq> [])"
| "truthy (py_dict kvs) = (kvs \<noteq> [])"
| "truthy (py_rating_type t) = True"
| "truthy (py_requirement_rating r) = True"

fun is_number :: "pyobj \<Rightarrow> bool" where
  \<comment> \<open>\<^verbatim>\<open>isinstance(v, (int, float))\<close>; \<^verbatim>\<open>bool\<close> is a subclass of \<^verbatim>\<open>int\<close>\<close>
  "is_number (py_bool b) = True"
| "is_number (py_int i) = True"
| "is_number (py_float f) = True"
| "is_number _ = False"

datatype before_error = AttributeError

definition old_format_entry :: "string \<times> pyobj \<Rightarrow> string \<times> pyobj" where
  \<comment> \<open>\<^verbatim>\<open>k: {"value": v, "type": TaskOutputRatingType.five_star}\<close>\<close>
  "old_format_entry kv =
     (fst kv, py_dict [(''value'', snd kv), (''type'', py_rating_type five_star)])"

definition upgrade_old_format :: "pyobj \<Rightarrow> before_error + pyobj" where
  "upgrade_old_format data =
     (case data of
        py_dict d \<Rightarrow>
          (let req_ratings =
                 (case map_of d ''requirement_ratings'' of None \<Rightarrow> py_dict [] | Some v \<Rightarrow> v)
           in if \<not> truthy req_ratings then Inr data
              else (case req_ratings of
                      py_dict rr \<Rightarrow>
                        if list_all (\<lambda>kv. is_number (snd kv)) rr
                        then Inr (py_dict (AList.update ''requirement_ratings''
                                    (py_dict (map old_format_entry rr)) d))
                        else Inr data
                    | _ \<Rightarrow> Inl AttributeError))
      | _ \<Rightarrow> Inr data)"

datatype 'id construct_error =
    raised_before before_error
  | fields_invalid
  | raised_after "'id rating_error"

definition TaskOutputRating_construct ::
  "(pyobj \<Rightarrow> 'id TaskOutputRating option) \<Rightarrow> pyobj
     \<Rightarrow> 'id construct_error + 'id TaskOutputRating" where
  \<comment> \<open>the order in which pydantic builds the model: the \<^verbatim>\<open>mode="before"\<close> validator on
      the raw argument, then the parsing of the declared fields (\<open>parse_fields\<close>, the
      library's part), then the \<^verbatim>\<open>mode="after"\<close> validator\<close>
  "TaskOutputRating_construct parse_fields data =
     (case upgrade_old_format data of
        Inl e \<Rightarrow> Inl (raised_before e)
      | Inr data' \<Rightarrow>
          (case parse_fields data' of
             None \<Rightarrow> Inl fields_invalid
           | Some self \<Rightarrow>
               (case validate_rating self of
                  Inl e \<Rightarrow> Inl (raised_after e)
                | Inr self' \<Rightarrow> Inr self')))"

subsection \<open>Data sources\<close>

datatype DataSourceType = human | synthetic

datatype prop_value = PStr string | PInt int | PFloat pyfloat

datatype py_type = str_type | int_type | float_type

fun isinstance :: "prop_value \<Rightarrow> py_type \<Rightarrow> bool" where
  "isinstance (PStr s) t = (t = str_type)"
| "isinstance (PInt i) t = (t = int_type)"
| "isinstance (PFloat f) t = (t = float_type)"

record DataSourceProperty =
  prop_name :: string
  prop_type :: py_type
  required_for :: "DataSourceType list"
  not_allowed_for :: "DataSourceType list"

record DataSource =
  source_type :: DataSourceType
  properties :: "(string \<times> prop_value) list"

definition data_source_properties :: "DataSourceProperty list" where
  "data_source_properties =
     [\<lparr>prop_name = ''created_by'', prop_type = str_type,
        required_for = [human], not_allowed_for = [synthetic]\<rparr>,
      \<lparr>prop_name = ''model_name'', prop_type = str_type,
        required_for = [synthetic], not_allowed_for = [human]\<rparr>,
      \<lparr>prop_name = ''model_provider'', prop_type = str_type,
        required_for = [synthetic], not_allowed_for = [human]\<rparr>,
      \<lparr>prop_name = ''adapter_name'', prop_type = str_type,
        required_for = [synthetic], not_allowed_for = [human]\<rparr>,
      \<lparr>prop_name = ''prompt_builder_name'', prop_type = str_type,
        required_for = [], not_allowed_for = [human]\<rparr>,
      \<lparr>prop_name = ''prompt_id'', prop_type = str_type,
        required_for = [], not_allowed_for = [human]\<rparr>]"

datatype source_error =
    must_be_of_type string py_type
  | is_required string
  | is_not_allowed string
  | must_be_non_empty_string string

definition validate_type :: "DataSource \<Rightarrow> source_error + DataSource" where
  \<comment> \<open>\<^verbatim>\<open>self.type not in DataSourceType\<close> is false for both members\<close>
  "validate_type self = Inr self"

fun check_properties :: "DataSourceProperty list \<Rightarrow> DataSource \<Rightarrow> source_error + DataSource" where
  \<comment> \<open>the loop of \<^verbatim>\<open>validate_properties\<close> over the registry\<close>
  "check_properties [] self = Inr self"
| "check_properties (prop # rest) self =
     (let found = map_of (properties self) (prop_name prop)
      in if (case found of None \<Rightarrow> False | Some v \<Rightarrow> \<not> isinstance v (prop_type prop))
           then Inl (must_be_of_type (prop_name prop) (prop_type prop))
         else if source_type self \<in> set (required_for prop)
           then (if found = None then Inl (is_required (prop_name prop))
                 else check_properties rest self)
         else if source_type self \<in> set (not_allowed_for prop) \<and> found \<noteq> None
           then Inl (is_not_allowed (prop_name prop))
         else check_properties rest self)"

definition validate_properties :: "DataSource \<Rightarrow> source_error + DataSource" where
  "validate_properties self = check_properties data_source_properties self"

fun check_no_empty :: "(string \<times> prop_value) list \<Rightarrow> source_error + unit" where
  \<comment> \<open>the loop of \<^verbatim>\<open>validate_no_empty_properties\<close> over \<^verbatim>\<open>self.properties.items()\<close>\<close>
  "check_no_empty [] = Inr ()"
| "check_no_empty ((prop, v) # rest) =
     (if v = PStr [] then Inl (must_be_non_empty_string prop) else check_no_empty rest)"

definition validate_no_empty_properties :: "DataSource \<Rightarrow> source_error + DataSource" where
  "validate_no_empty_properties self =
     (case check_no_empty (properties self) of Inl e \<Rightarrow> Inl e | Inr _ \<Rightarrow> Inr self)"

definition and_then :: "'e + 'a \<Rightarrow> ('a \<Rightarrow> 'e + 'b) \<Rightarrow> 'e + 'b" where
  \<comment> \<open>one validator after another: the first exception ends the run\<close>
  "and_then r f = (case r of Inl e \<Rightarrow> Inl e | Inr x \<Rightarrow> f x)"

definition DataSource_validators :: "DataSource \<Rightarrow> source_error + DataSource" where
  \<comment> \<open>the \<^verbatim>\<open>mode="after"\<close> validators of \<^verbatim>\<open>DataSource\<close>, in the order of their
      definition, which is the order in which construction runs them\<close>
  "DataSource_validators self =
     and_then (and_then (validate_type self) validate_properties) validate_no_empty_properties"

subsection \<open>Tasks and task runs\<close>

record 'id TaskOutput =
  output_field :: string
  source :: "DataSource option"
  rating :: "'id TaskOutputRating option"

record Task =
  output_json_schema :: "string option"
  input_json_schema :: "string option"

text \<open>
  \<^verbatim>\<open>self.parent\<close> comes from \<^verbatim>\<open>KilnParentedModel\<close> (in \<^verbatim>\<open>basemodel\<close>): no model, a
  \<^verbatim>\<open>Task\<close>, or a model of another class. \<^verbatim>\<open>parent_task\<close> is defined with the same
  body in \<^verbatim>\<open>TaskRun\<close> and in \<^verbatim>\<open>DatasetSplit\<close>; it is one function on the fields
  that the two classes inherit.
\<close>

datatype parent_model = a_Task Task | another_model

record 'id KilnParentedModel =
  id_field :: 'id
  parent :: "parent_model option"

definition parent_task :: "('id, 'more) KilnParentedModel_scheme \<Rightarrow> Task option" where
  "parent_task self =
     (case parent self of Some (a_Task task) \<Rightarrow> Some task | _ \<Rightarrow> None)"

record 'id TaskRun = "'id KilnParentedModel" +
  input :: string
  input_source :: "DataSource option"
  run_output :: "'id TaskOutput"
  repair_instructions :: "string option"
  repaired_output :: "'id TaskOutput option"
  intermediate_outputs :: "(string \<times> string) list option"
  tags :: "string list"
  last_validated_input :: "string option"
  last_validated_output :: "string option"

text \<open>
  \<open>last_validated_input\<close> and \<open>last_validated_output\<close> are the instance attributes
  \<^verbatim>\<open>_last_validated_input\<close> and \<^verbatim>\<open>_last_validated_output\<close>; \<open>None\<close> is the attribute
  not being set (\<^verbatim>\<open>hasattr\<close> false). The field \<^verbatim>\<open>output\<close> of a run is declared
  \<^verbatim>\<open>TaskOutput\<close>, so the branches for \<^verbatim>\<open>self.output\<close> being \<^verbatim>\<open>None\<close> are not taken.

  The schema check is \<^verbatim>\<open>validate_schema(json.loads(text), schema)\<close>. Both functions
  are outside this file (the standard library, and \<^verbatim>\<open>json_schema\<close>); they are
  parameters, and every call of either is recorded, the way a test double counts
  calls. The record \<open>env\<close> also holds what else a validation pass reads from outside
  the instance: the module's \<^verbatim>\<open>_strict_mode\<close>, and the answers of
  \<^verbatim>\<open>self.loading_from_file(info)\<close> and \<^verbatim>\<open>self.loaded_from_file(info)\<close> (both in
  \<^verbatim>\<open>basemodel\<close>).
\<close>

datatype schema_outcome = schema_ok | ValidationError string

datatype 'j call = call_json_loads string | call_validate_schema 'j string

record 'j env =
  json_loads :: "string \<Rightarrow> 'j option"
  validate_schema :: "'j \<Rightarrow> string \<Rightarrow> schema_outcome"
  strict_mode :: bool
  loading_from_file :: bool
  loaded_from_file :: bool

datatype run_error =
    input_is_not_valid_json
  | input_does_not_match_schema string
  | output_is_not_valid_json
  | output_does_not_match_schema string
  | repaired_output_rating_must_be_None
  | repair_instructions_required
  | repaired_output_required
  | input_source_required
  | tags_cannot_be_empty_strings
  | tags_cannot_contain_spaces

type_synonym ('j, 'a) checked = "(run_error + 'a) \<times> 'j call list"

definition check_against_schema ::
  "'j env \<Rightarrow> string \<Rightarrow> string \<Rightarrow> run_error \<Rightarrow> (string \<Rightarrow> run_error) \<Rightarrow> ('j, unit) checked" where
  \<comment> \<open>the \<^verbatim>\<open>try\<close> block shared by the input and the output check:
      \<^verbatim>\<open>json.loads\<close> first, and \<^verbatim>\<open>validate_schema\<close> only on what it returned\<close>
  "check_against_schema e text schema not_json mismatch =
     (case json_loads e text of
        None \<Rightarrow> (Inl not_json, [call_json_loads text])
      | Some v \<Rightarrow>
          (case validate_schema e v schema of
             ValidationError msg \<Rightarrow>
               (Inl (mismatch msg), [call_json_loads text, call_validate_schema v schema])
           | schema_ok \<Rightarrow> (Inr (), [call_json_loads text, call_validate_schema v schema])))"

definition validate_input_format :: "'j env \<Rightarrow> 'id TaskRun \<Rightarrow> ('j, 'id TaskRun) checked" where
  "validate_input_format e self =
     (if loading_from_file e
        then (Inr (self\<lparr>last_validated_input := Some (input self)\<rparr>), [])
      else if last_validated_input self = Some (input self) then (Inr self, [])
      else (case parent_task self of
              None \<Rightarrow> (Inr self, [])
            | Some task \<Rightarrow>
                (case input_json_schema task of
                   None \<Rightarrow> (Inr (self\<lparr>last_validated_input := Some (input self)\<rparr>), [])
                 | Some schema \<Rightarrow>
                     (case check_against_schema e (input self) schema
                             input_is_not_valid_json input_does_not_match_schema of
                        (Inl err, calls) \<Rightarrow> (Inl err, calls)
                      | (Inr _, calls) \<Rightarrow>
                          (Inr (self\<lparr>last_validated_input := Some (input self)\<rparr>), calls)))))"

definition TaskOutput_validate_output_format ::
  "'j env \<Rightarrow> 'id TaskOutput \<Rightarrow> Task \<Rightarrow> ('j, 'id TaskOutput) checked" where
  \<comment> \<open>\<^verbatim>\<open>TaskOutput.validate_output_format(self, task)\<close>\<close>
  "TaskOutput_validate_output_format e self task =
     (case output_json_schema task of
        None \<Rightarrow> (Inr self, [])
      | Some schema \<Rightarrow>
          (case check_against_schema e (output_field self) schema
                  output_is_not_valid_json output_does_not_match_schema of
             (Inl err, calls) \<Rightarrow> (Inl err, calls)
           | (Inr _, calls) \<Rightarrow> (Inr self, calls)))"

definition validate_output_format :: "'j env \<Rightarrow> 'id TaskRun \<Rightarrow> ('j, 'id TaskRun) checked" where
  \<comment> \<open>\<^verbatim>\<open>TaskRun.validate_output_format\<close>\<close>
  "validate_output_format e self =
     (if loading_from_file e
        then (Inr (self\<lparr>last_validated_output := Some (output_field (run_output self))\<rparr>), [])
      else if last_validated_output self = Some (output_field (run_output self)) then (Inr self, [])
      else (case parent_task self of
              None \<Rightarrow> (Inr self, [])
            | Some task \<Rightarrow>
                (case TaskOutput_validate_output_format e (run_output self) task of
                   (Inl err, calls) \<Rightarrow> (Inl err, calls)
                 | (Inr _, calls) \<Rightarrow>
                     (Inr (self\<lparr>last_validated_output := Some (output_field (run_output self))\<rparr>),
                      calls))))"

definition validate_repaired_output :: "'id TaskRun \<Rightarrow> run_error + 'id TaskRun" where
  "validate_repaired_output self =
     (if (case repaired_output self of None \<Rightarrow> False | Some ro \<Rightarrow> rating ro \<noteq> None)
        then Inl repaired_output_rating_must_be_None
      else if repair_instructions self = None \<and> repaired_output self \<noteq> None
        then Inl repair_instructions_required
      else if repair_instructions self \<noteq> None \<and> repaired_output self = None
        then Inl repaired_output_required
      else Inr self)"

definition validate_input_source :: "'j env \<Rightarrow> 'id TaskRun \<Rightarrow> run_error + 'id TaskRun" where
  "validate_input_source e self =
     (if \<not> strict_mode e then Inr self
      else if loaded_from_file e then Inr self
      else if input_source self = None then Inl input_source_required
      else Inr self)"

fun check_tags :: "string list \<Rightarrow> run_error + unit" where
  \<comment> \<open>the loop of \<^verbatim>\<open>validate_tags\<close>; \<^verbatim>\<open>not tag\<close> is true of the empty string only\<close>
  "check_tags [] = Inr ()"
| "check_tags (tag # rest) =
     (if tag = [] then Inl tags_cannot_be_empty_strings
      else if CHR '' '' \<in> set tag then Inl tags_cannot_contain_spaces
      else check_tags rest)"

definition validate_tags :: "'id TaskRun \<Rightarrow> run_error + 'id TaskRun" where
  "validate_tags self = (case check_tags (tags self) of Inl e \<Rightarrow> Inl e | Inr _ \<Rightarrow> Inr self)"

definition then_checked ::
  "('j, 'a) checked \<Rightarrow> ('a \<Rightarrow> ('j, 'b) checked) \<Rightarrow> ('j, 'b) checked" where
  \<comment> \<open>one validator after another, the calls of both in order\<close>
  "then_checked r f =
     (case r of
        (Inl err, calls) \<Rightarrow> (Inl err, calls)
      | (Inr x, calls) \<Rightarrow> (case f x of (r', calls') \<Rightarrow> (r', calls @ calls')))"

definition TaskRun_validators :: "'j env \<Rightarrow> 'id TaskRun \<Rightarrow> ('j, 'id TaskRun) checked" where
  \<comment> \<open>one validation pass: the \<^verbatim>\<open>mode="after"\<close> validators of \<^verbatim>\<open>TaskRun\<close> in the order
      of their definition\<close>
  "TaskRun_validators e self =
     then_checked
       (then_checked
          (then_checked
             (then_checked (validate_input_format e self) (validate_output_format e))
             (\<lambda>s. (validate_repaired_output s, [])))
          (\<lambda>s. (validate_input_source e s, [])))
       (\<lambda>s. (validate_tags s, []))"

subsection \<open>Dataset splits\<close>

record DatasetSplitDefinition =
  name :: string
  description :: "string option"
  percentage :: rat

record 'id DatasetSplit = "'id KilnParentedModel" +
  splits :: "DatasetSplitDefinition list"
  split_contents :: "(string \<times> 'id list) list"


definition rel_tol_1e_9 :: rat where
  \<comment> \<open>the float literal \<^verbatim>\<open>1e-9\<close>\<close>
  "rel_tol_1e_9 = round_binary64 (1 / 10 ^ 9)"


text \<open>
  \<^verbatim>\<open>build_split_contents\<close>. \<^verbatim>\<open>task.runs()\<close> reads the task's runs through the
  collection protocol of \<^verbatim>\<open>basemodel\<close>: the parameter \<open>runs\<close>. \<^verbatim>\<open>random.shuffle\<close> is
  the parameter \<open>shuffle\<close>; what is proved of the result is proved for every
  function that returns its argument in some order.
\<close>

definition split_size :: "nat \<Rightarrow> rat \<Rightarrow> int" where
  \<comment> \<open>\<^verbatim>\<open>round(len(valid_ids) * split.percentage)\<close>\<close>
  "split_size n p = py_round (fmul (float_of_int (int n)) p)"

record 'id split_state =
  contents :: "(string \<times> 'id list) list"
  start_idx :: int
  remaining_items :: int

fun split_loop ::
  "'id list \<Rightarrow> DatasetSplitDefinition list \<Rightarrow> 'id split_state \<Rightarrow> 'id split_state" where
  \<comment> \<open>the loop over \<^verbatim>\<open>splits[:-1]\<close>\<close>
  "split_loop valid_ids [] st = st"
| "split_loop valid_ids (split # rest) st =
     (let sz = split_size (length valid_ids) (percentage split)
      in split_loop valid_ids rest
           \<lparr>contents = AList.update (name split)
                         (py_slice valid_ids (start_idx st) (start_idx st + sz)) (contents st),
            start_idx = start_idx st + sz,
            remaining_items = remaining_items st - sz\<rparr>)"

definition split_shuffled :: "'id list \<Rightarrow> DatasetSplitDefinition list \<Rightarrow> (string \<times> 'id list) list" where
  \<comment> \<open>\<^verbatim>\<open>build_split_contents\<close> from the line after \<^verbatim>\<open>random.shuffle(valid_ids)\<close> on;
      the argument \<^verbatim>\<open>splits\<close> is \<open>split_defs\<close>; \<^verbatim>\<open>splits[:-1]\<close> is
      \<open>butlast split_defs\<close>, and \<^verbatim>\<open>splits[-1]\<close>, read if the list is not empty, is
      \<open>last split_defs\<close>\<close>
  "split_shuffled valid_ids split_defs =
     (let st = split_loop valid_ids (butlast split_defs)
                 \<lparr>contents = [], start_idx = 0, remaining_items = int (length valid_ids)\<rparr>
      in if split_defs \<noteq> []
           then AList.update (name (last split_defs)) (py_slice_from valid_ids (start_idx st))
                  (contents st)
         else contents st)"

definition build_split_contents ::
  "('id list \<Rightarrow> 'id list) \<Rightarrow> (Task \<Rightarrow> 'id TaskRun list) \<Rightarrow> Task \<Rightarrow> DatasetSplitDefinition list
     \<Rightarrow> ('id TaskRun \<Rightarrow> bool) \<Rightarrow> (string \<times> 'id list) list" where
  "build_split_contents shuffle runs task split_defs flt =
     split_shuffled
       (shuffle (map id_field (filter flt (runs task)))) split_defs"


subsection \<open>Example values\<close>

definition plain_run :: "string TaskRun" where
  "plain_run =
     \<lparr>id_field = ''run1'', parent = None, input = ''in'', input_source = None,
      run_output = \<lparr>output_field = ''out'', source = None, rating = None\<rparr>,
      repair_instructions = None, repaired_output = None, intermediate_outputs = None,
      tags = [], last_validated_input = None, last_validated_output = None\<rparr>"

definition plain_env :: "unit env" where
  "plain_env =
     \<lparr>json_loads = (\<lambda>text. Some ()), validate_schema = (\<lambda>v schema. schema_ok),
      strict_mode = False, loading_from_file = False, loaded_from_file = False\<rparr>"

definition rated_output :: "string TaskOutput" where
  "rated_output =
     \<lparr>output_field = ''fixed'', source = None,
      rating = Some \<lparr>rating_type = five_star, rating_value = Some (Finite 5),
                     requirement_ratings = []\<rparr>\<rparr>"

definition unrated_output :: "string TaskOutput" where
  "unrated_output = \<lparr>output_field = ''fixed'', source = None, rating = None\<rparr>"

definition schemaless_task :: Task where
  "schemaless_task = \<lparr>output_json_schema = None, input_json_schema = None\<rparr>"


definition synthetic_source :: DataSource where
  "synthetic_source =
     \<lparr>source_type = synthetic,
      properties = [(''model_name'', PStr ''x''), (''model_provider'', PStr ''p''),
                    (''adapter_name'', PStr ''a'')]\<rparr>"

definition five_star_rating :: "pyfloat option \<Rightarrow> string TaskOutputRating" where
  "five_star_rating v = \<lparr>rating_type = five_star, rating_value = v, requirement_ratings = []\<rparr>"

definition custom_rating :: "string TaskOutputRating" where
  "custom_rating =
     \<lparr>rating_type = custom, rating_value = Some (Finite 42),
      requirement_ratings = [(''r1'', \<lparr>rr_value = Finite 2, rr_type = pass_fail\<rparr>)]\<rparr>"

definition legacy_rating_data :: pyobj where
  "legacy_rating_data =
     py_dict [(''value'', py_float (Finite 4)),
              (''requirement_ratings'',
                 py_dict [(''r1'', py_float (Finite 3)), (''r2'', py_float (Finite 5))])]"

definition typed_rating_data :: pyobj where
  "typed_rating_data =
     py_dict [(''requirement_ratings'',
                 py_dict [(''r1'', py_dict [(''value'', py_float (Finite 3)),
                                            (''type'', py_str ''five_star'')]),
                          (''r2'', py_requirement_rating \<lparr>rr_value = Finite 1, rr_type = pass_fail\<rparr>)])]"

definition schema_task :: Task where
  "schema_task = \<lparr>output_json_schema = Some ''out_schema'', input_json_schema = Some ''in_schema''\<rparr>"

definition attached_run :: "string TaskRun" where
  "attached_run = plain_run\<lparr>parent := Some (a_Task schema_task)\<rparr>"

definition braces_env :: "bool \<Rightarrow> string env" where
  \<comment> \<open>a test double: only texts that start with an opening brace parse, and every
      parsed value conforms\<close>
  "braces_env loading =
     \<lparr>json_loads = (\<lambda>text. if take 1 text = ''{'' then Some text else None),
      validate_schema = (\<lambda>v schema. schema_ok),
      strict_mode = False, loading_from_file = loading, loaded_from_file = loading\<rparr>"

definition schema_calls :: "'j env \<Rightarrow> string \<Rightarrow> string \<Rightarrow> 'j call list" where
  \<comment> \<open>the calls of one run of the \<^verbatim>\<open>try\<close> block on a text and a schema\<close>
  "schema_calls e text schema =
     call_json_loads text #
       (case json_loads e text of None \<Rightarrow> [] | Some v \<Rightarrow> [call_validate_schema v schema])"

definition conforms :: "'j env \<Rightarrow> string \<Rightarrow> string \<Rightarrow> bool" where
  \<comment> \<open>the \<^verbatim>\<open>try\<close> block on a text and a schema raises nothing\<close>
  "conforms e str schema =
     (case json_loads e str of None \<Rightarrow> False | Some v \<Rightarrow> validate_schema e v schema = schema_ok)"

definition io_run :: "string \<Rightarrow> string option \<Rightarrow> string \<Rightarrow> string option \<Rightarrow> string TaskRun" where
  \<comment> \<open>a run under \<open>schema_task\<close>: its input with the cached input value, its output
      with the cached output value\<close>
  "io_run inp cached_inp out cached_out =
     attached_run\<lparr>input := inp, last_validated_input := cached_inp,
                  run_output := \<lparr>output_field = out, source = None, rating = None\<rparr>,
                  last_validated_output := cached_out\<rparr>"

definition split_start :: "nat \<Rightarrow> DatasetSplitDefinition list \<Rightarrow> nat \<Rightarrow> int" where
  \<comment> \<open>\<^verbatim>\<open>start_idx\<close> when the definition at position \<open>i\<close> is reached: the sizes of the
      definitions before it, added up\<close>
  "split_start n split_defs i =
     sum_list (map (\<lambda>d. split_size n (percentage d)) (take i split_defs))"

definition split_slice :: "'id list \<Rightarrow> DatasetSplitDefinition list \<Rightarrow> nat \<Rightarrow> 'id list" where
  \<comment> \<open>the slice computed for the definition at position \<open>i\<close>\<close>
  "split_slice valid_ids split_defs i =
     (let start = split_start (length valid_ids) split_defs i
      in if i + 1 < length split_defs
           then py_slice valid_ids start
                  (start + split_size (length valid_ids) (percentage (split_defs ! i)))
         else py_slice_from valid_ids start)"

fun loop_assigned :: "'id list \<Rightarrow> int \<Rightarrow> DatasetSplitDefinition list \<Rightarrow> (string \<times> 'id list) list" where
  \<comment> \<open>the assignments \<^verbatim>\<open>split_contents[split.name] = ...\<close> of the loop, in order, from
      \<^verbatim>\<open>start_idx = start\<close> on\<close>
  "loop_assigned valid_ids start [] = []"
| "loop_assigned valid_ids start (d # ds) =
     (name d, py_slice valid_ids start (start + split_size (length valid_ids) (percentage d)))
       # loop_assigned valid_ids (start + split_size (length valid_ids) (percentage d)) ds"

abbreviation assign :: "string \<times> 'v \<Rightarrow> (string \<times> 'v) list \<Rightarrow> (string \<times> 'v) list" where
  "assign kv al \<equiv> AList.update (fst kv) (snd kv) al"

definition assignments :: "'id list \<Rightarrow> DatasetSplitDefinition list \<Rightarrow> (string \<times> 'id list) list" where
  \<comment> \<open>the assignments \<^verbatim>\<open>split_contents[name] = slice\<close> of \<^verbatim>\<open>build_split_contents\<close>, in
      the order in which it makes them\<close>
  "assignments valid_ids split_defs =
     map (\<lambda>i. (name (split_defs ! i), split_slice valid_ids split_defs i))
       [0..<length split_defs]"

fun overwritten :: "('k \<times> 'v) list \<Rightarrow> ('k \<times> 'v) list" where
  \<comment> \<open>of a list of assignments \<^verbatim>\<open>d[k] = v\<close>, those whose key is assigned again later\<close>
  "overwritten [] = []"
| "overwritten (kv # kvs) =
     (if fst kv \<in> fst ` set kvs then kv # overwritten kvs else overwritten kvs)"

fun final_assigned :: "('k \<times> 'v) list \<Rightarrow> ('k \<times> 'v) list" where
  \<comment> \<open>and those whose key is not assigned again\<close>
  "final_assigned [] = []"
| "final_assigned (kv # kvs) =
     (if fst kv \<in> fst ` set kvs then final_assigned kvs else kv # final_assigned kvs)"

definition runs_named :: "string \<Rightarrow> Task \<Rightarrow> string TaskRun list" where
  \<comment> \<open>one run for each character of the string, with that character as its ID\<close>
  "runs_named cs task = map (\<lambda>c. plain_run\<lparr>id_field := [c]\<rparr>) cs"

definition split_def :: "string \<Rightarrow> rat \<Rightarrow> DatasetSplitDefinition" where
  "split_def nm p = \<lparr>name = nm, description = None, percentage = p\<rparr>"


section \<open>Properties\<close>

subsection \<open>A validation pass of a task run\<close>

lemma check_against_schema_cases:
  "(\<exists>err calls. check_against_schema e t s nj mm = (Inl err, calls)) \<or>
   (\<exists>calls. check_against_schema e t s nj mm = (Inr (), calls))"
  by (simp add: check_against_schema_def split: option.splits schema_outcome.splits)

lemma validate_input_format_Inr:
  "validate_input_format e self = (Inr s, calls) \<Longrightarrow>
     s = self\<lparr>last_validated_input := last_validated_input s\<rparr>"
  by (auto simp: validate_input_format_def split: if_splits option.splits sum.splits prod.splits)

lemma validate_output_format_Inr:
  "validate_output_format e self = (Inr s, calls) \<Longrightarrow>
     s = self\<lparr>last_validated_output := last_validated_output s\<rparr>"
  by (auto simp: validate_output_format_def split: if_splits option.splits sum.splits prod.splits)

lemma validate_repaired_output_Inr:
  "validate_repaired_output self = Inr s \<Longrightarrow> s = self"
  by (auto simp: validate_repaired_output_def split: if_splits)

lemma validate_input_source_Inr:
  "validate_input_source e self = Inr s \<Longrightarrow> s = self"
  by (auto simp: validate_input_source_def split: if_splits)

lemma validate_tags_Inr:
  "validate_tags self = Inr s \<Longrightarrow> s = self"
  by (auto simp: validate_tags_def split: sum.splits)

lemma then_checked_Inr:
  "then_checked r f = (Inr y, calls) \<longleftrightarrow>
     (\<exists>x c1 c2. r = (Inr x, c1) \<and> f x = (Inr y, c2) \<and> calls = c1 @ c2)"
  by (cases r) (auto simp: then_checked_def split: sum.splits prod.splits)

lemma TaskRun_validators_Inr:
  "TaskRun_validators e self = (Inr s, calls) \<longleftrightarrow>
     (\<exists>s1 c1 c2. validate_input_format e self = (Inr s1, c1)
        \<and> validate_output_format e s1 = (Inr s, c2)
        \<and> validate_repaired_output s = Inr s
        \<and> validate_input_source e s = Inr s
        \<and> validate_tags s = Inr s
        \<and> calls = c1 @ c2)"
proof
  assume "TaskRun_validators e self = (Inr s, calls)"
  then obtain s1 c1 s2 c2 s3 s4 where
    a: "validate_input_format e self = (Inr s1, c1)" and
    b: "validate_output_format e s1 = (Inr s2, c2)" and
    c: "validate_repaired_output s2 = Inr s3" and
    d: "validate_input_source e s3 = Inr s4" and
    t: "validate_tags s4 = Inr s" and
    calls: "calls = c1 @ c2"
    unfolding TaskRun_validators_def then_checked_Inr by auto
  have "s3 = s2" "s4 = s3" "s = s4"
    using validate_repaired_output_Inr[OF c] validate_input_source_Inr[OF d]
      validate_tags_Inr[OF t] by simp_all
  with a b c d t calls
  show "\<exists>s1 c1 c2. validate_input_format e self = (Inr s1, c1)
        \<and> validate_output_format e s1 = (Inr s, c2)
        \<and> validate_repaired_output s = Inr s
        \<and> validate_input_source e s = Inr s
        \<and> validate_tags s = Inr s
        \<and> calls = c1 @ c2"
    by auto
next
  assume "\<exists>s1 c1 c2. validate_input_format e self = (Inr s1, c1)
        \<and> validate_output_format e s1 = (Inr s, c2)
        \<and> validate_repaired_output s = Inr s
        \<and> validate_input_source e s = Inr s
        \<and> validate_tags s = Inr s
        \<and> calls = c1 @ c2"
  then show "TaskRun_validators e self = (Inr s, calls)"
    unfolding TaskRun_validators_def then_checked_Inr by auto
qed

lemma TaskRun_validators_fields:
  assumes "TaskRun_validators e self = (Inr s, calls)"
  shows "tags s = tags self" "repair_instructions s = repair_instructions self"
    "repaired_output s = repaired_output self"
proof -
  from assms obtain s1 c1 c2 where
    a: "validate_input_format e self = (Inr s1, c1)" and
    b: "validate_output_format e s1 = (Inr s, c2)"
    unfolding TaskRun_validators_Inr by blast
  have "tags s1 = tags self" "repair_instructions s1 = repair_instructions self"
    "repaired_output s1 = repaired_output self"
    by (subst validate_input_format_Inr[OF a], simp)+
  moreover have "tags s = tags s1" "repair_instructions s = repair_instructions s1"
    "repaired_output s = repaired_output s1"
    by (subst validate_output_format_Inr[OF b], simp)+
  ultimately show "tags s = tags self" "repair_instructions s = repair_instructions self"
    "repaired_output s = repaired_output self"
    by simp_all
qed

lemma TaskRun_validators_cases:
  "(\<exists>err calls. TaskRun_validators e self = (Inl err, calls)) \<or>
   (\<exists>s calls. TaskRun_validators e self = (Inr s, calls))"
  by (metis old.sum.exhaust surj_pair)

subsection \<open>Tags\<close>

lemma check_tags_ok_iff:
  "check_tags ts = Inr () \<longleftrightarrow> (\<forall>t \<in> set ts. t \<noteq> [] \<and> CHR '' '' \<notin> set t)"
  by (induction ts) auto

lemma validate_tags_ok_iff:
  "validate_tags self = Inr self \<longleftrightarrow> (\<forall>t \<in> set (tags self). t \<noteq> [] \<and> CHR '' '' \<notin> set t)"
  by (simp add: validate_tags_def check_tags_ok_iff[symmetric] split: sum.splits)

text \<open>
  Claim C4, as the code has it. \<^verbatim>\<open>validate_tags\<close> accepts a run exactly when every tag
  is non-empty and contains no space character (U+0020); otherwise it raises, and so
  does the whole validation pass of the run. The test in the source is
  \<^verbatim>\<open>" " in tag\<close>, and its message is "Tags cannot contain spaces": other white space
  (a tab, a line break) is not looked for.
\<close>

theorem validate_tags_spaces:
  "(validate_tags self = Inr self \<longleftrightarrow>
      (\<forall>tag \<in> set (tags self). tag \<noteq> [] \<and> CHR '' '' \<notin> set tag))
   \<and> ((\<exists>err. validate_tags self = Inl err) \<longleftrightarrow>
      (\<exists>tag \<in> set (tags self). tag = [] \<or> CHR '' '' \<in> set tag))
   \<and> ((\<exists>tag \<in> set (tags self). tag = [] \<or> CHR '' '' \<in> set tag) \<longrightarrow>
      (\<exists>err calls. TaskRun_validators e self = (Inl err, calls)))"
proof (intro conjI impI)
  show ok: "validate_tags self = Inr self \<longleftrightarrow>
      (\<forall>tag \<in> set (tags self). tag \<noteq> [] \<and> CHR '' '' \<notin> set tag)"
    by (rule validate_tags_ok_iff)
  have cases: "validate_tags self = Inr self \<or> (\<exists>err. validate_tags self = Inl err)"
    by (simp add: validate_tags_def split: sum.splits)
  show "(\<exists>err. validate_tags self = Inl err) \<longleftrightarrow>
      (\<exists>tag \<in> set (tags self). tag = [] \<or> CHR '' '' \<in> set tag)"
    using ok cases by auto
  assume bad: "\<exists>tag \<in> set (tags self). tag = [] \<or> CHR '' '' \<in> set tag"
  show "\<exists>err calls. TaskRun_validators e self = (Inl err, calls)"
  proof (rule ccontr)
    assume "\<not> (\<exists>err calls. TaskRun_validators e self = (Inl err, calls))"
    then obtain s calls where r: "TaskRun_validators e self = (Inr s, calls)"
      using TaskRun_validators_cases[of e self] by blast
    then have "validate_tags s = Inr s" and "tags s = tags self"
      using TaskRun_validators_Inr[of e self s calls] TaskRun_validators_fields(1)[OF r]
      by auto
    with bad show False
      using validate_tags_ok_iff[of s] by auto
  qed
qed

text \<open>
  The tags \<^verbatim>\<open>["a_b", "c"]\<close> are accepted, \<^verbatim>\<open>["a b"]\<close> and \<^verbatim>\<open>[""]\<close> are refused.
\<close>

theorem validate_tags_spaces_witness:
  "validate_tags (plain_run\<lparr>tags := [''a_b'', ''c'']\<rparr>) = Inr (plain_run\<lparr>tags := [''a_b'', ''c'']\<rparr>)
   \<and> (\<exists>err. validate_tags (plain_run\<lparr>tags := [''a b'']\<rparr>) = Inl err)
   \<and> (\<exists>err calls. TaskRun_validators plain_env (plain_run\<lparr>tags := ['''']\<rparr>) = (Inl err, calls))"
  using validate_tags_spaces[of "plain_run\<lparr>tags := [''a_b'', ''c'']\<rparr>" plain_env]
    validate_tags_spaces[of "plain_run\<lparr>tags := [''a b'']\<rparr>" plain_env]
    validate_tags_spaces[of "plain_run\<lparr>tags := ['''']\<rparr>" plain_env]
  by simp

text \<open>
  A tag with a tab between two letters passes the whole validation pass, although
  it contains white space.
\<close>

theorem validate_tags_tab_counterexample:
  "TaskRun_validators plain_env (plain_run\<lparr>tags := [[CHR ''a'', CHR 0x09, CHR ''b'']]\<rparr>)
     = (Inr (plain_run\<lparr>tags := [[CHR ''a'', CHR 0x09, CHR ''b'']]\<rparr>), [])"
  by (simp add: TaskRun_validators_def then_checked_def validate_input_format_def
      validate_output_format_def validate_repaired_output_def validate_input_source_def
      validate_tags_def parent_task_def plain_run_def plain_env_def)

subsection \<open>Repairs\<close>

lemma validate_repaired_output_ok_iff:
  "validate_repaired_output self = Inr self \<longleftrightarrow>
     ((repair_instructions self = None \<longleftrightarrow> repaired_output self = None)
      \<and> (\<forall>ro. repaired_output self = Some ro \<longrightarrow> rating ro = None))"
  by (auto simp: validate_repaired_output_def split: option.splits)

text \<open>
  Claim C7. \<^verbatim>\<open>validate_repaired_output\<close> accepts a run exactly when
  \<^verbatim>\<open>repair_instructions\<close> and \<^verbatim>\<open>repaired_output\<close> are both present or both absent
  and a present \<^verbatim>\<open>repaired_output\<close> has no rating. Every run that a validation pass
  accepts satisfies this invariant. A repaired output without instructions, a rated
  repaired output with instructions, and instructions without a repaired output are
  each refused, by the validator and by the whole pass.
\<close>

theorem repair_invariant:
  "(validate_repaired_output self = Inr self \<longleftrightarrow>
      ((repair_instructions self = None \<longleftrightarrow> repaired_output self = None)
       \<and> (\<forall>ro. repaired_output self = Some ro \<longrightarrow> rating ro = None)))
   \<and> (TaskRun_validators e self = (Inr s, calls) \<longrightarrow>
         (repair_instructions s = None \<longleftrightarrow> repaired_output s = None)
       \<and> (\<forall>ro. repaired_output s = Some ro \<longrightarrow> rating ro = None))
   \<and> (repaired_output self \<noteq> None \<and> repair_instructions self = None \<longrightarrow>
         (\<exists>err. validate_repaired_output self = Inl err)
       \<and> (\<exists>err calls. TaskRun_validators e self = (Inl err, calls)))
   \<and> (repair_instructions self \<noteq> None \<and> (\<exists>ro. repaired_output self = Some ro \<and> rating ro \<noteq> None) \<longrightarrow>
         validate_repaired_output self = Inl repaired_output_rating_must_be_None
       \<and> (\<exists>err calls. TaskRun_validators e self = (Inl err, calls)))
   \<and> (repair_instructions self \<noteq> None \<and> repaired_output self = None \<longrightarrow>
         validate_repaired_output self = Inl repaired_output_required
       \<and> (\<exists>err calls. TaskRun_validators e self = (Inl err, calls)))"
proof -
  have valid: "(repair_instructions s' = None \<longleftrightarrow> repaired_output s' = None)
       \<and> (\<forall>ro. repaired_output s' = Some ro \<longrightarrow> rating ro = None)"
    if "TaskRun_validators e self = (Inr s', calls')" for s' calls'
    using that TaskRun_validators_Inr[of e self s' calls']
      validate_repaired_output_ok_iff[of s'] by blast
  have fails: "\<exists>err calls. TaskRun_validators e self = (Inl err, calls)"
    if "\<not> ((repair_instructions self = None \<longleftrightarrow> repaired_output self = None)
       \<and> (\<forall>ro. repaired_output self = Some ro \<longrightarrow> rating ro = None))"
  proof (rule ccontr)
    assume "\<not> (\<exists>err calls. TaskRun_validators e self = (Inl err, calls))"
    then obtain s' calls' where r: "TaskRun_validators e self = (Inr s', calls')"
      using TaskRun_validators_cases[of e self] by blast
    from valid[OF r] TaskRun_validators_fields(2,3)[OF r] that show False by simp
  qed
  show ?thesis
  proof (intro conjI impI)
    show "validate_repaired_output self = Inr self \<longleftrightarrow>
      ((repair_instructions self = None \<longleftrightarrow> repaired_output self = None)
       \<and> (\<forall>ro. repaired_output self = Some ro \<longrightarrow> rating ro = None))"
      by (rule validate_repaired_output_ok_iff)
  next
    assume "TaskRun_validators e self = (Inr s, calls)"
    from valid[OF this]
    show "repair_instructions s = None \<longleftrightarrow> repaired_output s = None"
      and "\<forall>ro. repaired_output s = Some ro \<longrightarrow> rating ro = None" by simp_all
  next
    assume a: "repaired_output self \<noteq> None \<and> repair_instructions self = None"
    then show "\<exists>err. validate_repaired_output self = Inl err"
      by (auto simp: validate_repaired_output_def)
    from a show "\<exists>err calls. TaskRun_validators e self = (Inl err, calls)"
      by (intro fails) auto
  next
    assume a: "repair_instructions self \<noteq> None \<and> (\<exists>ro. repaired_output self = Some ro \<and> rating ro \<noteq> None)"
    then show "validate_repaired_output self = Inl repaired_output_rating_must_be_None"
      by (auto simp: validate_repaired_output_def)
    from a show "\<exists>err calls. TaskRun_validators e self = (Inl err, calls)"
      by (intro fails) auto
  next
    assume a: "repair_instructions self \<noteq> None \<and> repaired_output self = None"
    then show "validate_repaired_output self = Inl repaired_output_required"
      by (auto simp: validate_repaired_output_def)
    from a show "\<exists>err calls. TaskRun_validators e self = (Inl err, calls)"
      by (intro fails) auto
  qed
qed

text \<open>
  Instructions with an unrated repaired output are accepted; each of the three
  violations makes the validation pass fail.
\<close>

theorem repair_invariant_witness:
  "validate_repaired_output
     (plain_run\<lparr>repair_instructions := Some ''fix it'', repaired_output := Some unrated_output\<rparr>)
     = Inr (plain_run\<lparr>repair_instructions := Some ''fix it'', repaired_output := Some unrated_output\<rparr>)
   \<and> (\<exists>err calls. TaskRun_validators plain_env
         (plain_run\<lparr>repaired_output := Some unrated_output\<rparr>) = (Inl err, calls))
   \<and> (\<exists>err calls. TaskRun_validators plain_env
         (plain_run\<lparr>repair_instructions := Some ''fix it'', repaired_output := Some rated_output\<rparr>)
           = (Inl err, calls))
   \<and> (\<exists>err calls. TaskRun_validators plain_env
         (plain_run\<lparr>repair_instructions := Some ''fix it''\<rparr>) = (Inl err, calls))"
  using
    repair_invariant[of "plain_run\<lparr>repair_instructions := Some ''fix it'', repaired_output := Some unrated_output\<rparr>" plain_env]
    repair_invariant[of "plain_run\<lparr>repaired_output := Some unrated_output\<rparr>" plain_env]
    repair_invariant[of "plain_run\<lparr>repair_instructions := Some ''fix it'', repaired_output := Some rated_output\<rparr>" plain_env]
    repair_invariant[of "plain_run\<lparr>repair_instructions := Some ''fix it''\<rparr>" plain_env]
  by (simp add: plain_run_def unrated_output_def rated_output_def)

subsection \<open>Missing runs of a dataset split\<close>




subsection \<open>Data source properties\<close>

lemma check_properties_Inr:
  "check_properties ps self = Inr s \<Longrightarrow> s = self"
  by (induction ps) (auto simp: Let_def split: if_splits)

lemma check_properties_ok_iff:
  "check_properties ps self = Inr self \<longleftrightarrow>
     (\<forall>prop \<in> set ps.
        (\<forall>v. map_of (properties self) (prop_name prop) = Some v \<longrightarrow> isinstance v (prop_type prop))
        \<and> (if source_type self \<in> set (required_for prop)
             then map_of (properties self) (prop_name prop) \<noteq> None
             else source_type self \<in> set (not_allowed_for prop) \<longrightarrow>
                    map_of (properties self) (prop_name prop) = None))"
  by (induction ps) (auto simp: Let_def split: option.splits)

lemma check_properties_cases:
  "check_properties ps self = Inr self \<or> (\<exists>err. check_properties ps self = Inl err)"
  by (metis check_properties_Inr old.sum.exhaust)

lemma check_no_empty_ok_iff:
  "check_no_empty kvs = Inr () \<longleftrightarrow> (\<forall>kv \<in> set kvs. snd kv \<noteq> PStr [])"
  by (induction kvs rule: check_no_empty.induct) auto

lemma DataSource_validators_cases:
  "DataSource_validators self = Inr self \<or> (\<exists>err. DataSource_validators self = Inl err)"
  using check_properties_cases[of data_source_properties self]
  by (auto simp: DataSource_validators_def validate_type_def validate_properties_def
      validate_no_empty_properties_def and_then_def split: sum.splits)

lemma DataSource_validators_ok_iff:
  "DataSource_validators self = Inr self \<longleftrightarrow>
     check_properties data_source_properties self = Inr self
     \<and> (\<forall>kv \<in> set (properties self). snd kv \<noteq> PStr [])"
  using check_properties_cases[of data_source_properties self]
  by (auto simp: DataSource_validators_def validate_type_def validate_properties_def
      validate_no_empty_properties_def and_then_def check_no_empty_ok_iff[symmetric]
      split: sum.splits dest: check_properties_Inr)

lemma registry_simps:
  "(\<forall>prop \<in> set data_source_properties. P prop) \<longleftrightarrow>
     P \<lparr>prop_name = ''created_by'', prop_type = str_type,
        required_for = [human], not_allowed_for = [synthetic]\<rparr>
   \<and> P \<lparr>prop_name = ''model_name'', prop_type = str_type,
        required_for = [synthetic], not_allowed_for = [human]\<rparr>
   \<and> P \<lparr>prop_name = ''model_provider'', prop_type = str_type,
        required_for = [synthetic], not_allowed_for = [human]\<rparr>
   \<and> P \<lparr>prop_name = ''adapter_name'', prop_type = str_type,
        required_for = [synthetic], not_allowed_for = [human]\<rparr>
   \<and> P \<lparr>prop_name = ''prompt_builder_name'', prop_type = str_type,
        required_for = [], not_allowed_for = [human]\<rparr>
   \<and> P \<lparr>prop_name = ''prompt_id'', prop_type = str_type,
        required_for = [], not_allowed_for = [human]\<rparr>"
  by (simp add: data_source_properties_def)

lemma registry_ok_iff:
  "check_properties data_source_properties self = Inr self \<longleftrightarrow>
     (\<forall>prop \<in> set data_source_properties.
        (\<forall>v. map_of (properties self) (prop_name prop) = Some v \<longrightarrow> isinstance v (prop_type prop))
        \<and> (source_type self \<in> set (required_for prop) \<longrightarrow>
              map_of (properties self) (prop_name prop) \<noteq> None)
        \<and> (source_type self \<in> set (not_allowed_for prop) \<longrightarrow>
              map_of (properties self) (prop_name prop) = None))"
  unfolding check_properties_ok_iff registry_simps
  by (cases "source_type self") simp_all

lemma check_properties_unknown:
  assumes "k \<notin> prop_name ` set ps"
  shows "check_properties ps (self\<lparr>properties := AList.update k v (properties self)\<rparr>)
           = (case check_properties ps self of
                Inl err \<Rightarrow> Inl err
              | Inr s \<Rightarrow> Inr (self\<lparr>properties := AList.update k v (properties self)\<rparr>))"
  using assms
  by (induction ps) (auto simp: Let_def update_conv' split: option.splits)

text \<open>
  Claim C8. The validators of \<^verbatim>\<open>DataSource\<close> accept a source exactly when, for every
  property of the registry, a present value has the declared type, a property
  required for the source type is present and a property not allowed for it is
  absent, and no property value at all is the empty string. Whatever they do not
  accept, they reject with an error. A property whose name is not in the registry
  does not change what \<^verbatim>\<open>validate_properties\<close> answers.
\<close>

theorem data_source_property_rules:
  "(DataSource_validators self = Inr self \<longleftrightarrow>
      (\<forall>prop \<in> set data_source_properties.
         (\<forall>v. map_of (properties self) (prop_name prop) = Some v \<longrightarrow> isinstance v (prop_type prop))
         \<and> (source_type self \<in> set (required_for prop) \<longrightarrow>
               map_of (properties self) (prop_name prop) \<noteq> None)
         \<and> (source_type self \<in> set (not_allowed_for prop) \<longrightarrow>
               map_of (properties self) (prop_name prop) = None))
      \<and> (\<forall>kv \<in> set (properties self). snd kv \<noteq> PStr []))
   \<and> (DataSource_validators self \<noteq> Inr self \<longrightarrow> (\<exists>err. DataSource_validators self = Inl err))
   \<and> (k \<notin> prop_name ` set data_source_properties \<longrightarrow>
        validate_properties (self\<lparr>properties := AList.update k v (properties self)\<rparr>)
          = (case validate_properties self of
               Inl err \<Rightarrow> Inl err
             | Inr s \<Rightarrow> Inr (self\<lparr>properties := AList.update k v (properties self)\<rparr>)))"
proof (intro conjI)
  show "DataSource_validators self = Inr self \<longleftrightarrow>
      (\<forall>prop \<in> set data_source_properties.
         (\<forall>v. map_of (properties self) (prop_name prop) = Some v \<longrightarrow> isinstance v (prop_type prop))
         \<and> (source_type self \<in> set (required_for prop) \<longrightarrow>
               map_of (properties self) (prop_name prop) \<noteq> None)
         \<and> (source_type self \<in> set (not_allowed_for prop) \<longrightarrow>
               map_of (properties self) (prop_name prop) = None))
      \<and> (\<forall>kv \<in> set (properties self). snd kv \<noteq> PStr [])"
    unfolding DataSource_validators_ok_iff registry_ok_iff by (rule refl)
  show "DataSource_validators self \<noteq> Inr self \<longrightarrow> (\<exists>err. DataSource_validators self = Inl err)"
    using DataSource_validators_cases[of self] by blast
  show "k \<notin> prop_name ` set data_source_properties \<longrightarrow>
        validate_properties (self\<lparr>properties := AList.update k v (properties self)\<rparr>)
          = (case validate_properties self of
               Inl err \<Rightarrow> Inl err
             | Inr s \<Rightarrow> Inr (self\<lparr>properties := AList.update k v (properties self)\<rparr>))"
    using check_properties_unknown[where k = k and ps = data_source_properties and self = self and v = v]
    by (simp add: validate_properties_def)
qed

text \<open>
  The synthetic source with \<^verbatim>\<open>model_name\<close>, \<^verbatim>\<open>model_provider\<close> and
  \<^verbatim>\<open>adapter_name\<close> is accepted. A human source is refused with no properties, with
  \<^verbatim>\<open>model_name\<close> alone, with \<^verbatim>\<open>created_by\<close> and \<^verbatim>\<open>model_name\<close>, with a number as
  \<^verbatim>\<open>created_by\<close>, and with an unregistered property that is the empty string; it is
  accepted with \<^verbatim>\<open>created_by\<close> and an unregistered property of any other value.
\<close>

theorem data_source_property_rules_witness:
  "DataSource_validators synthetic_source = Inr synthetic_source
   \<and> (\<exists>err. DataSource_validators \<lparr>source_type = human, properties = []\<rparr> = Inl err)
   \<and> (\<exists>err. DataSource_validators
               \<lparr>source_type = human, properties = [(''model_name'', PStr ''x'')]\<rparr> = Inl err)
   \<and> (\<exists>err. DataSource_validators
               \<lparr>source_type = human,
                properties = [(''created_by'', PStr ''me''), (''model_name'', PStr ''x'')]\<rparr> = Inl err)
   \<and> (\<exists>err. DataSource_validators
               \<lparr>source_type = human, properties = [(''created_by'', PInt 7)]\<rparr> = Inl err)
   \<and> (\<exists>err. DataSource_validators
               \<lparr>source_type = human,
                properties = [(''created_by'', PStr ''me''), (''note'', PStr '''')]\<rparr> = Inl err)
   \<and> DataSource_validators
         \<lparr>source_type = human,
          properties = [(''created_by'', PStr ''me''), (''note'', PInt 3)]\<rparr>
       = Inr \<lparr>source_type = human,
              properties = [(''created_by'', PStr ''me''), (''note'', PInt 3)]\<rparr>"
  using data_source_property_rules[where self = synthetic_source]
    data_source_property_rules[where self = "\<lparr>source_type = human, properties = []\<rparr>"]
    data_source_property_rules[where self = "\<lparr>source_type = human, properties = [(''model_name'', PStr ''x'')]\<rparr>"]
    data_source_property_rules[where self = "\<lparr>source_type = human,
                properties = [(''created_by'', PStr ''me''), (''model_name'', PStr ''x'')]\<rparr>"]
    data_source_property_rules[where self = "\<lparr>source_type = human, properties = [(''created_by'', PInt 7)]\<rparr>"]
    data_source_property_rules[where self = "\<lparr>source_type = human,
                properties = [(''created_by'', PStr ''me''), (''note'', PStr '''')]\<rparr>"]
    data_source_property_rules[where self = "\<lparr>source_type = human,
          properties = [(''created_by'', PStr ''me''), (''note'', PInt 3)]\<rparr>"]
  unfolding registry_simps
  by (simp add: synthetic_source_def)

text \<open>
  The registry is checked in its order, so a human source whose only property is
  \<^verbatim>\<open>model_name\<close> is refused for the missing \<^verbatim>\<open>created_by\<close>; with \<^verbatim>\<open>created_by\<close>
  present the error is the one for the property that is not allowed.
\<close>

lemma human_model_name_error:
  "DataSource_validators \<lparr>source_type = human, properties = [(''model_name'', PStr ''x'')]\<rparr>
     = Inl (is_required ''created_by'')
   \<and> DataSource_validators
       \<lparr>source_type = human,
        properties = [(''created_by'', PStr ''me''), (''model_name'', PStr ''x'')]\<rparr>
     = Inl (is_not_allowed ''model_name'')"
  by (simp add: DataSource_validators_def validate_type_def validate_properties_def
      and_then_def data_source_properties_def)

subsection \<open>Rating values\<close>

lemma is_integer_Finite_iff: "is_integer (Finite q) \<longleftrightarrow> q \<in> \<int>"
  by (auto simp: Ints_def)

lemma int_between_1_and_5:
  "(q \<in> \<int> \<and> \<not> q < 1 \<and> \<not> 5 < q) \<longleftrightarrow> q \<in> {1, 2, 3, 4, 5::rat}"
proof
  assume "q \<in> \<int> \<and> \<not> q < 1 \<and> \<not> 5 < q"
  then obtain z :: int where q: "q = of_int z" and "1 \<le> z" "z \<le> 5"
    by (auto simp: Ints_def not_less)
  then have "z = 1 \<or> z = 2 \<or> z = 3 \<or> z = 4 \<or> z = 5" by arith
  with q show "q \<in> {1, 2, 3, 4, 5::rat}" by auto
next
  assume "q \<in> {1, 2, 3, 4, 5::rat}"
  then show "q \<in> \<int> \<and> \<not> q < 1 \<and> \<not> 5 < q" by auto
qed

lemma us_validate_five_star_ok_iff:
  "us_validate_five_star r nm = Inr () \<longleftrightarrow> r \<in> Some ` Finite ` {1, 2, 3, 4, 5}"
proof (cases r)
  case None
  then show ?thesis by (auto simp: us_validate_five_star_def)
next
  case (Some f)
  show ?thesis
  proof (cases f)
    case (Finite q)
    have "us_validate_five_star r nm = Inr () \<longleftrightarrow> (q \<in> \<int> \<and> \<not> q < 1 \<and> \<not> 5 < q)"
      using Some Finite
      by (simp add: us_validate_five_star_def is_integer_Finite_iff del: is_integer.simps(1))
    also have "\<dots> \<longleftrightarrow> q \<in> {1, 2, 3, 4, 5::rat}" by (rule int_between_1_and_5)
    also have "\<dots> \<longleftrightarrow> r \<in> Some ` Finite ` {1, 2, 3, 4, 5}"
      using Some Finite by auto
    finally show ?thesis .
  qed (use Some in \<open>auto simp: us_validate_five_star_def\<close>)
qed

lemma us_validate_pass_fail_ok_iff:
  "us_validate_pass_fail r nm = Inr () \<longleftrightarrow> r \<in> Some ` Finite ` {0, 1}"
proof (cases r)
  case None
  then show ?thesis by (auto simp: us_validate_pass_fail_def)
next
  case (Some f)
  then show ?thesis
    by (cases f) (auto simp: us_validate_pass_fail_def is_integer_Finite_iff simp del: is_integer.simps(1))
qed

lemma us_validate_pass_fail_critical_ok_iff:
  "us_validate_pass_fail_critical r nm = Inr () \<longleftrightarrow> r \<in> Some ` Finite ` {- 1, 0, 1}"
proof (cases r)
  case None
  then show ?thesis by (auto simp: us_validate_pass_fail_critical_def)
next
  case (Some f)
  then show ?thesis
    by (cases f)
      (auto simp: us_validate_pass_fail_critical_def is_integer_Finite_iff simp del: is_integer.simps(1))
qed

lemma validate_requirement_ratings_ok_iff:
  "validate_requirement_ratings rs = Inr () \<longleftrightarrow>
     (\<forall>(req_id, rr) \<in> set rs.
        us_validate_rating (rr_type rr) (Some (rr_value rr)) (requirement_rating req_id) = Inr ())"
  by (induction rs rule: validate_requirement_ratings.induct) (auto split: sum.splits)

lemma validate_rating_ok_iff:
  fixes self :: "'id TaskOutputRating"
  shows "validate_rating self = Inr self \<longleftrightarrow>
     (\<forall>v. rating_value self = Some v \<longrightarrow>
          us_validate_rating (rating_type self) (Some v) (overall_rating :: 'id rating_name) = Inr ())
     \<and> (\<forall>(req_id, rr) \<in> set (requirement_ratings self).
          us_validate_rating (rr_type rr) (Some (rr_value rr)) (requirement_rating req_id) = Inr ())"
  by (auto simp: validate_rating_def validate_requirement_ratings_ok_iff[symmetric]
      split: option.splits sum.splits)

lemma validate_rating_cases:
  "validate_rating self = Inr self \<or> (\<exists>err. validate_rating self = Inl err)"
  by (auto simp: validate_rating_def split: option.splits sum.splits)

text \<open>
  Claim C3, as the code has it. The check of one value, \<^verbatim>\<open>_validate_rating\<close>, accepts
  for \<^verbatim>\<open>five_star\<close> exactly the floats 1, 2, 3, 4, 5, for \<^verbatim>\<open>pass_fail\<close> exactly 0
  and 1, for \<^verbatim>\<open>pass_fail_critical\<close> exactly -1, 0 and 1, and for \<^verbatim>\<open>custom\<close>
  everything; \<^verbatim>\<open>None\<close>, fractions, infinities and NaN are outside the three sets.
  \<^verbatim>\<open>validate_rating\<close> accepts a rating exactly when the overall value is absent or
  passes that check for the rating's type, and the value of every requirement rating
  passes it for the requirement rating's type; anything else is refused with an
  error.
\<close>

theorem rating_legal_values:
  fixes self :: "'id TaskOutputRating" and nm :: "'id rating_name"
  shows
  "(us_validate_rating five_star r nm = Inr () \<longleftrightarrow> r \<in> Some ` Finite ` {1, 2, 3, 4, 5})
   \<and> (us_validate_rating pass_fail r nm = Inr () \<longleftrightarrow> r \<in> Some ` Finite ` {0, 1})
   \<and> (us_validate_rating pass_fail_critical r nm = Inr () \<longleftrightarrow> r \<in> Some ` Finite ` {- 1, 0, 1})
   \<and> us_validate_rating custom r nm = Inr ()
   \<and> (validate_rating self = Inr self \<longleftrightarrow>
        (\<forall>v. rating_value self = Some v \<longrightarrow>
             us_validate_rating (rating_type self) (Some v) (overall_rating :: 'id rating_name)
               = Inr ())
        \<and> (\<forall>(req_id, rr) \<in> set (requirement_ratings self).
             us_validate_rating (rr_type rr) (Some (rr_value rr)) (requirement_rating req_id)
               = Inr ()))
   \<and> (validate_rating self \<noteq> Inr self \<longrightarrow> (\<exists>err. validate_rating self = Inl err))"
proof (intro conjI)
  show "us_validate_rating five_star r nm = Inr () \<longleftrightarrow> r \<in> Some ` Finite ` {1, 2, 3, 4, 5}"
    by (simp only: us_validate_rating.simps us_validate_five_star_ok_iff)
  show "us_validate_rating pass_fail r nm = Inr () \<longleftrightarrow> r \<in> Some ` Finite ` {0, 1}"
    by (simp only: us_validate_rating.simps us_validate_pass_fail_ok_iff)
  show "us_validate_rating pass_fail_critical r nm = Inr () \<longleftrightarrow> r \<in> Some ` Finite ` {- 1, 0, 1}"
    by (simp only: us_validate_rating.simps us_validate_pass_fail_critical_ok_iff)
  show "us_validate_rating custom r nm = Inr ()"
    by simp
  show "validate_rating self = Inr self \<longleftrightarrow>
        (\<forall>v. rating_value self = Some v \<longrightarrow>
             us_validate_rating (rating_type self) (Some v) (overall_rating :: 'id rating_name)
               = Inr ())
        \<and> (\<forall>(req_id, rr) \<in> set (requirement_ratings self).
             us_validate_rating (rr_type rr) (Some (rr_value rr)) (requirement_rating req_id)
               = Inr ())"
    by (rule validate_rating_ok_iff)
  show "validate_rating self \<noteq> Inr self \<longrightarrow> (\<exists>err. validate_rating self = Inl err)"
    using validate_rating_cases[of self] by blast
qed

text \<open>
  Three stars are accepted; 0, 6, 2.5 and NaN are refused as five-star values; a
  \<^verbatim>\<open>custom\<close> overall value of 42 does not save a rating whose \<^verbatim>\<open>pass_fail\<close>
  requirement rating is 2; the check of one value refuses \<^verbatim>\<open>None\<close>.
\<close>

theorem rating_legal_values_witness:
  "validate_rating (five_star_rating (Some (Finite 3))) = Inr (five_star_rating (Some (Finite 3)))
   \<and> (\<exists>err. validate_rating (five_star_rating (Some (Finite 0))) = Inl err)
   \<and> (\<exists>err. validate_rating (five_star_rating (Some (Finite 6))) = Inl err)
   \<and> (\<exists>err. validate_rating (five_star_rating (Some (Finite (5 / 2)))) = Inl err)
   \<and> (\<exists>err. validate_rating (five_star_rating (Some NaN)) = Inl err)
   \<and> (\<exists>err. validate_rating custom_rating = Inl err)
   \<and> us_validate_rating five_star None (overall_rating :: string rating_name) \<noteq> Inr ()"
proof -
  have five: "validate_rating (five_star_rating v) = Inr (five_star_rating v) \<longleftrightarrow>
      (v = None \<or> v \<in> Some ` Finite ` {1, 2, 3, 4, 5})" for v
    using rating_legal_values[where self = "five_star_rating v" and r = v
        and nm = "overall_rating :: string rating_name"]
    by (cases v) (simp_all add: five_star_rating_def)
  have fails: "\<exists>err. validate_rating (five_star_rating v) = Inl err"
    if "v \<noteq> None" "v \<notin> Some ` Finite ` {1, 2, 3, 4, 5}" for v
    using rating_legal_values[where self = "five_star_rating v" and r = v
        and nm = "overall_rating :: string rating_name"] five[of v] that
    by blast
  have custom: "\<exists>err. validate_rating custom_rating = Inl err"
    using rating_legal_values[where self = custom_rating and r = "Some (Finite 2)"
        and nm = "requirement_rating ''r1''"]
    by (simp add: custom_rating_def)
  have none: "us_validate_rating five_star None (overall_rating :: string rating_name) \<noteq> Inr ()"
    using rating_legal_values[where self = custom_rating and r = None
        and nm = "overall_rating :: string rating_name"]
    by simp
  show ?thesis
    using five[of "Some (Finite 3)"] fails[of "Some (Finite 0)"] fails[of "Some (Finite 6)"]
      fails[of "Some (Finite (5 / 2))"] fails[of "Some NaN"] custom none
    by simp
qed

text \<open>
  A five-star rating without an overall value is valid: \<^verbatim>\<open>validate_rating\<close> checks
  the overall value only when it is not \<^verbatim>\<open>None\<close>.
\<close>

theorem five_star_None_counterexample:
  "validate_rating (five_star_rating None) = Inr (five_star_rating None)"
  by (simp add: validate_rating_def five_star_rating_def)

subsection \<open>The legacy format is upgraded first\<close>

lemma update_same: "map_of al k = Some v \<Longrightarrow> AList.update k v al = al"
  by (induction al) (auto split: if_splits)

lemma upgrade_all_numbers:
  assumes "map_of d ''requirement_ratings'' = Some (py_dict rr)"
    and "\<forall>kv \<in> set rr. is_number (snd kv)"
  shows "upgrade_old_format (py_dict d) =
           Inr (py_dict (AList.update ''requirement_ratings''
                  (py_dict (map old_format_entry rr)) d))"
proof (cases "rr = []")
  case True
  with assms(1) show ?thesis
    by (simp add: upgrade_old_format_def update_same)
next
  case False
  with assms show ?thesis
    by (simp add: upgrade_old_format_def list_all_iff)
qed

lemma upgrade_not_all_numbers:
  assumes "map_of d ''requirement_ratings'' = Some (py_dict rr)"
    and "\<exists>kv \<in> set rr. \<not> is_number (snd kv)"
  shows "upgrade_old_format (py_dict d) = Inr (py_dict d)"
  using assms by (auto simp: upgrade_old_format_def list_all_iff)

lemma map_of_old_format:
  "map_of (map old_format_entry rr) k =
     (case map_of rr k of
        None \<Rightarrow> None
      | Some v \<Rightarrow> Some (py_dict [(''value'', v), (''type'', py_rating_type five_star)]))"
  by (induction rr) (auto simp: old_format_entry_def)

text \<open>
  Claim C5. When \<^verbatim>\<open>requirement_ratings\<close> of the raw argument is a dict whose values
  are all numbers, \<^verbatim>\<open>upgrade_old_format\<close> replaces it by the dict with the same keys
  in which each number \<open>v\<close> has become \<^verbatim>\<open>{"value": v, "type": five_star}\<close>, and
  the parsing of the fields and \<^verbatim>\<open>validate_rating\<close> see only the replaced argument.
  When some value is not a number, as in a dict of typed ratings, or when the key
  is absent, the argument is returned as it is.
\<close>

theorem legacy_ratings_upgraded:
  "(map_of d ''requirement_ratings'' = Some (py_dict rr) \<and> (\<forall>kv \<in> set rr. is_number (snd kv)) \<longrightarrow>
      upgrade_old_format (py_dict d) =
        Inr (py_dict (AList.update ''requirement_ratings'' (py_dict (map old_format_entry rr)) d))
      \<and> TaskOutputRating_construct parse_fields (py_dict d) =
          (case parse_fields (py_dict (AList.update ''requirement_ratings''
                                 (py_dict (map old_format_entry rr)) d)) of
             None \<Rightarrow> Inl fields_invalid
           | Some self \<Rightarrow>
               (case validate_rating self of
                  Inl err \<Rightarrow> Inl (raised_after err)
                | Inr self' \<Rightarrow> Inr self')))
   \<and> map_of (map old_format_entry rr) k =
       (case map_of rr k of
          None \<Rightarrow> None
        | Some v \<Rightarrow> Some (py_dict [(''value'', v), (''type'', py_rating_type five_star)]))
   \<and> map fst (map old_format_entry rr) = map fst rr
   \<and> (map_of d ''requirement_ratings'' = Some (py_dict rr) \<and> (\<exists>kv \<in> set rr. \<not> is_number (snd kv)) \<longrightarrow>
        upgrade_old_format (py_dict d) = Inr (py_dict d))
   \<and> (map_of d ''requirement_ratings'' = None \<longrightarrow>
        upgrade_old_format (py_dict d) = Inr (py_dict d))"
proof (intro conjI impI)
  assume a: "map_of d ''requirement_ratings'' = Some (py_dict rr) \<and> (\<forall>kv \<in> set rr. is_number (snd kv))"
  then show up: "upgrade_old_format (py_dict d) =
        Inr (py_dict (AList.update ''requirement_ratings'' (py_dict (map old_format_entry rr)) d))"
    using upgrade_all_numbers[of d rr] by blast
  show "TaskOutputRating_construct parse_fields (py_dict d) =
          (case parse_fields (py_dict (AList.update ''requirement_ratings''
                                 (py_dict (map old_format_entry rr)) d)) of
             None \<Rightarrow> Inl fields_invalid
           | Some self \<Rightarrow>
               (case validate_rating self of
                  Inl err \<Rightarrow> Inl (raised_after err)
                | Inr self' \<Rightarrow> Inr self'))"
    by (simp add: TaskOutputRating_construct_def up)
next
  show "map_of (map old_format_entry rr) k =
       (case map_of rr k of
          None \<Rightarrow> None
        | Some v \<Rightarrow> Some (py_dict [(''value'', v), (''type'', py_rating_type five_star)]))"
    by (rule map_of_old_format)
next
  show "map fst (map old_format_entry rr) = map fst rr"
    by (simp add: old_format_entry_def comp_def)
next
  assume "map_of d ''requirement_ratings'' = Some (py_dict rr) \<and> (\<exists>kv \<in> set rr. \<not> is_number (snd kv))"
  then show "upgrade_old_format (py_dict d) = Inr (py_dict d)"
    using upgrade_not_all_numbers[of d rr] by blast
next
  assume "map_of d ''requirement_ratings'' = None"
  then show "upgrade_old_format (py_dict d) = Inr (py_dict d)"
    by (simp add: upgrade_old_format_def)
qed

text \<open>
  \<^verbatim>\<open>{"r1": 3.0, "r2": 5.0}\<close> becomes two typed five-star ratings; a dict that holds
  a typed dict and a \<^verbatim>\<open>RequirementRating\<close> object is left alone.
\<close>

theorem legacy_ratings_upgraded_witness:
  "upgrade_old_format legacy_rating_data =
     Inr (py_dict [(''value'', py_float (Finite 4)),
            (''requirement_ratings'',
               py_dict [(''r1'', py_dict [(''value'', py_float (Finite 3)),
                                          (''type'', py_rating_type five_star)]),
                        (''r2'', py_dict [(''value'', py_float (Finite 5)),
                                          (''type'', py_rating_type five_star)])])])
   \<and> upgrade_old_format typed_rating_data = Inr typed_rating_data"
proof -
  have legacy: "upgrade_old_format legacy_rating_data =
     Inr (py_dict [(''value'', py_float (Finite 4)),
            (''requirement_ratings'',
               py_dict [(''r1'', py_dict [(''value'', py_float (Finite 3)),
                                          (''type'', py_rating_type five_star)]),
                        (''r2'', py_dict [(''value'', py_float (Finite 5)),
                                          (''type'', py_rating_type five_star)])])])"
    using legacy_ratings_upgraded[where d = "[(''value'', py_float (Finite 4)),
              (''requirement_ratings'',
                 py_dict [(''r1'', py_float (Finite 3)), (''r2'', py_float (Finite 5))])]"
      and rr = "[(''r1'', py_float (Finite 3)), (''r2'', py_float (Finite 5))]"
      and k = "''r1''" and parse_fields = "\<lambda>data. (None :: string TaskOutputRating option)"]
    by (simp add: legacy_rating_data_def old_format_entry_def)
  have typed: "upgrade_old_format typed_rating_data = Inr typed_rating_data"
    using legacy_ratings_upgraded[where d = "[(''requirement_ratings'',
                 py_dict [(''r1'', py_dict [(''value'', py_float (Finite 3)),
                                            (''type'', py_str ''five_star'')]),
                          (''r2'', py_requirement_rating \<lparr>rr_value = Finite 1, rr_type = pass_fail\<rparr>)])]"
      and rr = "[(''r1'', py_dict [(''value'', py_float (Finite 3)),
                                            (''type'', py_str ''five_star'')]),
                          (''r2'', py_requirement_rating \<lparr>rr_value = Finite 1, rr_type = pass_fail\<rparr>)]"
      and k = "''r1''" and parse_fields = "\<lambda>data. (None :: string TaskOutputRating option)"]
    by (simp add: typed_rating_data_def)
  from legacy typed show ?thesis by (rule conjI)
qed

subsection \<open>The cache of validated values\<close>

lemma check_against_schema_calls:
  "snd (check_against_schema e text schema nj mm) = schema_calls e text schema"
  by (simp add: check_against_schema_def schema_calls_def split: option.splits schema_outcome.splits)

lemma input_loading:
  "loading_from_file e \<Longrightarrow>
     validate_input_format e self = (Inr (self\<lparr>last_validated_input := Some (input self)\<rparr>), [])"
  by (simp add: validate_input_format_def)

lemma input_calls:
  assumes "\<not> loading_from_file e" "parent_task self = Some task"
    "input_json_schema task = Some schema"
  shows "snd (validate_input_format e self) =
           (if last_validated_input self = Some (input self) then []
            else schema_calls e (input self) schema)"
  using assms check_against_schema_calls[of e "input self" schema
      input_is_not_valid_json input_does_not_match_schema]
  by (auto simp: validate_input_format_def split: prod.splits sum.splits)

lemma input_recorded:
  assumes "validate_input_format e self = (Inr s, calls)"
    and "loading_from_file e \<or> parent_task self \<noteq> None"
  shows "input s = input self \<and> last_validated_input s = Some (input self)
     \<and> validate_input_format (e\<lparr>loading_from_file := False\<rparr>) s = (Inr s, [])"
  using assms
  by (auto simp: validate_input_format_def split: if_splits option.splits prod.splits sum.splits)

lemma output_loading:
  "loading_from_file e \<Longrightarrow>
     validate_output_format e self =
       (Inr (self\<lparr>last_validated_output := Some (output_field (run_output self))\<rparr>), [])"
  by (simp add: validate_output_format_def)

lemma output_calls:
  assumes "\<not> loading_from_file e" "parent_task self = Some task"
    "output_json_schema task = Some schema"
  shows "snd (validate_output_format e self) =
           (if last_validated_output self = Some (output_field (run_output self)) then []
            else schema_calls e (output_field (run_output self)) schema)"
  using assms check_against_schema_calls[of e "output_field (run_output self)" schema
      output_is_not_valid_json output_does_not_match_schema]
  by (auto simp: validate_output_format_def TaskOutput_validate_output_format_def
      split: prod.splits sum.splits)

lemma output_recorded:
  assumes "validate_output_format e self = (Inr s, calls)"
    and "loading_from_file e \<or> parent_task self \<noteq> None"
  shows "run_output s = run_output self
     \<and> last_validated_output s = Some (output_field (run_output self))
     \<and> validate_output_format (e\<lparr>loading_from_file := False\<rparr>) s = (Inr s, [])"
  using assms
  by (auto simp: validate_output_format_def split: if_splits option.splits prod.splits sum.splits)

lemma check_against_schema_raises:
  "(\<exists>err. fst (check_against_schema e str schema nj mm) = Inl err) \<longleftrightarrow> \<not> conforms e str schema"
  by (simp add: check_against_schema_def conforms_def split: option.splits schema_outcome.splits)

lemma input_raises:
  assumes "\<not> loading_from_file e" "parent_task self = Some task"
    "input_json_schema task = Some schema"
  shows "(\<exists>err calls. validate_input_format e self = (Inl err, calls)) \<longleftrightarrow>
           last_validated_input self \<noteq> Some (input self) \<and> \<not> conforms e (input self) schema"
  using assms check_against_schema_raises[of e "input self" schema
      input_is_not_valid_json input_does_not_match_schema]
  by (auto simp: validate_input_format_def split: prod.splits sum.splits)

lemma pass_calls:
  "snd (TaskRun_validators e self) =
     (case validate_input_format e self of
        (Inl err, c1) \<Rightarrow> c1
      | (Inr s1, c1) \<Rightarrow> c1 @ snd (validate_output_format e s1))"
  by (simp add: TaskRun_validators_def then_checked_def split: prod.splits sum.splits)

lemma output_calls_frame:
  "snd (validate_output_format e (self\<lparr>last_validated_input := x\<rparr>))
     = snd (validate_output_format e self)"
  by (simp add: validate_output_format_def parent_task_def
      split: option.splits parent_model.splits prod.splits sum.splits)

lemma pass_loading:
  assumes "loading_from_file e"
  shows "snd (TaskRun_validators e self) = []"
  using assms by (simp add: pass_calls input_loading output_loading)

lemma input_calls_any:
  assumes "\<not> loading_from_file e" "parent_task self = Some task"
  shows "snd (validate_input_format e self) =
           (case input_json_schema task of
              None \<Rightarrow> []
            | Some in_schema \<Rightarrow>
                if last_validated_input self = Some (input self) then []
                else schema_calls e (input self) in_schema)"
proof (cases "input_json_schema task")
  case None
  then show ?thesis
    using assms by (simp add: validate_input_format_def)
next
  case (Some in_schema)
  then show ?thesis
    using input_calls[OF assms Some] by simp
qed

lemma input_raises_any:
  assumes "\<not> loading_from_file e" "parent_task self = Some task"
  shows "(\<exists>err calls. validate_input_format e self = (Inl err, calls)) \<longleftrightarrow>
           (case input_json_schema task of
              None \<Rightarrow> False
            | Some in_schema \<Rightarrow>
                last_validated_input self \<noteq> Some (input self)
                \<and> \<not> conforms e (input self) in_schema)"
proof (cases "input_json_schema task")
  case None
  then show ?thesis
    using assms by (simp add: validate_input_format_def)
next
  case (Some in_schema)
  then show ?thesis
    using input_raises[OF assms Some] by simp
qed

lemma output_calls_any:
  assumes "\<not> loading_from_file e" "parent_task self = Some task"
  shows "snd (validate_output_format e self) =
           (case output_json_schema task of
              None \<Rightarrow> []
            | Some out_schema \<Rightarrow>
                if last_validated_output self = Some (output_field (run_output self)) then []
                else schema_calls e (output_field (run_output self)) out_schema)"
proof (cases "output_json_schema task")
  case None
  then show ?thesis
    using assms
    by (simp add: validate_output_format_def TaskOutput_validate_output_format_def)
next
  case (Some out_schema)
  then show ?thesis
    using output_calls[OF assms Some] by simp
qed

lemma pass_calls_schemas:
  assumes "\<not> loading_from_file e" "parent_task self = Some task"
  shows "snd (TaskRun_validators e self) =
     (case input_json_schema task of
        None \<Rightarrow> []
      | Some in_schema \<Rightarrow>
          if last_validated_input self = Some (input self) then []
          else schema_calls e (input self) in_schema)
     @ (case output_json_schema task of
          None \<Rightarrow> []
        | Some out_schema \<Rightarrow>
            if last_validated_output self = Some (output_field (run_output self))
               \<or> (case input_json_schema task of
                     None \<Rightarrow> False
                   | Some in_schema \<Rightarrow>
                       last_validated_input self \<noteq> Some (input self)
                       \<and> \<not> conforms e (input self) in_schema)
              then []
            else schema_calls e (output_field (run_output self)) out_schema)"
proof (cases "\<exists>err calls. validate_input_format e self = (Inl err, calls)")
  case True
  then obtain err c1 where r: "validate_input_format e self = (Inl err, c1)" by blast
  have "c1 = snd (validate_input_format e self)" by (simp add: r)
  then have c1: "c1 = (case input_json_schema task of
        None \<Rightarrow> []
      | Some in_schema \<Rightarrow>
          if last_validated_input self = Some (input self) then []
          else schema_calls e (input self) in_schema)"
    using input_calls_any[OF assms] by simp
  from True have "case input_json_schema task of
        None \<Rightarrow> False
      | Some in_schema \<Rightarrow>
          last_validated_input self \<noteq> Some (input self)
          \<and> \<not> conforms e (input self) in_schema"
    using input_raises_any[OF assms] by simp
  then show ?thesis
    by (simp add: pass_calls r c1 split: option.splits)
next
  case False
  then obtain s1 c1 where r: "validate_input_format e self = (Inr s1, c1)"
    by (metis old.sum.exhaust surj_pair)
  have "c1 = snd (validate_input_format e self)" by (simp add: r)
  then have c1: "c1 = (case input_json_schema task of
        None \<Rightarrow> []
      | Some in_schema \<Rightarrow>
          if last_validated_input self = Some (input self) then []
          else schema_calls e (input self) in_schema)"
    using input_calls_any[OF assms] by simp
  have s1: "s1 = self\<lparr>last_validated_input := last_validated_input s1\<rparr>"
    by (rule validate_input_format_Inr[OF r])
  have "snd (validate_output_format e s1) = snd (validate_output_format e self)"
    by (subst s1) (rule output_calls_frame)
  then have c2: "snd (validate_output_format e s1) =
      (case output_json_schema task of
         None \<Rightarrow> []
       | Some out_schema \<Rightarrow>
           if last_validated_output self = Some (output_field (run_output self)) then []
           else schema_calls e (output_field (run_output self)) out_schema)"
    using output_calls_any[OF assms] by simp
  from False have "\<not> (case input_json_schema task of
        None \<Rightarrow> False
      | Some in_schema \<Rightarrow>
          last_validated_input self \<noteq> Some (input self)
          \<and> \<not> conforms e (input self) in_schema)"
    using input_raises_any[OF assms] by simp
  then show ?thesis
    by (auto simp: pass_calls r c1 c2 split: option.splits)
qed

lemma pass_recorded:
  assumes r: "TaskRun_validators e self = (Inr s, calls)"
    and p: "loading_from_file e \<or> parent_task self \<noteq> None"
  shows "s = self\<lparr>last_validated_input := Some (input self),
                  last_validated_output := Some (output_field (run_output self))\<rparr>
     \<and> TaskRun_validators (e\<lparr>loading_from_file := False\<rparr>) s = (Inr s, [])"
proof -
  from r obtain s1 c1 c2 where
    a: "validate_input_format e self = (Inr s1, c1)" and
    b: "validate_output_format e s1 = (Inr s, c2)" and
    rest: "validate_repaired_output s = Inr s" "validate_input_source e s = Inr s"
      "validate_tags s = Inr s"
    unfolding TaskRun_validators_Inr by blast
  have ia: "input s1 = input self" "last_validated_input s1 = Some (input self)"
    using input_recorded[OF a p] by simp_all
  have s1: "s1 = self\<lparr>last_validated_input := Some (input self)\<rparr>"
    using validate_input_format_Inr[OF a] ia(2) by simp
  have p1: "loading_from_file e \<or> parent_task s1 \<noteq> None"
    using p by (subst s1) (simp add: parent_task_def)
  have ob: "run_output s = run_output s1"
    "last_validated_output s = Some (output_field (run_output s1))"
    "validate_output_format (e\<lparr>loading_from_file := False\<rparr>) s = (Inr s, [])"
    using output_recorded[OF b p1] by simp_all
  have s: "s = s1\<lparr>last_validated_output := Some (output_field (run_output s1))\<rparr>"
    using validate_output_format_Inr[OF b] ob(2) by simp
  have shape: "s = self\<lparr>last_validated_input := Some (input self),
                  last_validated_output := Some (output_field (run_output self))\<rparr>"
    by (subst s, subst (1 2) s1) simp
  have "validate_input_format (e\<lparr>loading_from_file := False\<rparr>) s = (Inr s, [])"
    by (subst (1 2) shape) (simp add: validate_input_format_def)
  moreover have "validate_input_source (e\<lparr>loading_from_file := False\<rparr>) s = Inr s"
    using rest(2) by (auto simp: validate_input_source_def split: if_splits)
  ultimately have "TaskRun_validators (e\<lparr>loading_from_file := False\<rparr>) s = (Inr s, [])"
    unfolding TaskRun_validators_Inr using ob(3) rest(1,3) by auto
  with shape show ?thesis by simp
qed

lemma fresh_pass:
  "TaskRun_validators (braces_env False) (io_run ''{}'' None ''{}'' None)
     = (Inr (io_run ''{}'' (Some ''{}'') ''{}'' (Some ''{}'')),
        [call_json_loads ''{}'', call_validate_schema ''{}'' ''in_schema'',
         call_json_loads ''{}'', call_validate_schema ''{}'' ''out_schema''])"
  by (simp add: TaskRun_validators_def then_checked_def validate_input_format_def
      validate_output_format_def TaskOutput_validate_output_format_def
      check_against_schema_def validate_repaired_output_def validate_input_source_def
      validate_tags_def parent_task_def io_run_def attached_run_def plain_run_def
      schema_task_def braces_env_def)

text \<open>
  Claim C2, as the code has it. A validation pass while loading from file calls
  neither \<^verbatim>\<open>json.loads\<close> nor \<^verbatim>\<open>validate_schema\<close>. Otherwise, for a run whose parent is
  a task, the calls of a pass are these: for the input, when the task has an input
  schema, the calls of one run of the \<^verbatim>\<open>try\<close> block exactly when the input is not the
  recorded one; then, for the output, when the task has an output schema, the calls
  of one run of the \<^verbatim>\<open>try\<close> block exactly when the output is not the recorded one
  and the input check of this pass has not raised, that is the task has no input
  schema, or the input was the recorded one or conforms to the schema. A pass that
  succeeds, on a run with a parent task or while loading, changes nothing but the
  two recorded values, which are then the current input and the current output, and
  the next pass on its result succeeds without a call. One run of the \<^verbatim>\<open>try\<close> block
  always makes a call.
\<close>

theorem change_cache:
  "(loading_from_file e \<longrightarrow> snd (TaskRun_validators e self) = [])
   \<and> (\<not> loading_from_file e \<and> parent_task self = Some task \<longrightarrow>
        snd (TaskRun_validators e self) =
          (case input_json_schema task of
             None \<Rightarrow> []
           | Some in_schema \<Rightarrow>
               if last_validated_input self = Some (input self) then []
               else schema_calls e (input self) in_schema)
          @ (case output_json_schema task of
               None \<Rightarrow> []
             | Some out_schema \<Rightarrow>
                 if last_validated_output self = Some (output_field (run_output self))
                    \<or> (case input_json_schema task of
                          None \<Rightarrow> False
                        | Some in_schema \<Rightarrow>
                            last_validated_input self \<noteq> Some (input self)
                            \<and> \<not> conforms e (input self) in_schema)
                   then []
                 else schema_calls e (output_field (run_output self)) out_schema))
   \<and> (TaskRun_validators e self = (Inr s, calls)
        \<and> (loading_from_file e \<or> parent_task self \<noteq> None) \<longrightarrow>
          s = self\<lparr>last_validated_input := Some (input self),
                   last_validated_output := Some (output_field (run_output self))\<rparr>
        \<and> TaskRun_validators (e\<lparr>loading_from_file := False\<rparr>) s = (Inr s, []))
   \<and> schema_calls e str schema \<noteq> []"
  using pass_loading[of e self] pass_calls_schemas[of e self task]
    pass_recorded[of e self s calls]
  by (simp add: schema_calls_def)

text \<open>
  With a test double that parses the texts starting with a brace: a pass while
  loading makes no call; a pass on a fresh run makes one call of each function for
  the input and for the output; the pass on its result, with \<^verbatim>\<open>{}\<close> recorded twice,
  succeeds without a call; after the output has changed to \<^verbatim>\<open>{ }\<close> the two calls for
  the output are made again, and none for the input.
\<close>

theorem change_cache_witness:
  "snd (TaskRun_validators (braces_env True) (io_run ''{}'' None ''{}'' None)) = []
   \<and> snd (TaskRun_validators (braces_env False) (io_run ''{}'' None ''{}'' None))
     = [call_json_loads ''{}'', call_validate_schema ''{}'' ''in_schema'',
        call_json_loads ''{}'', call_validate_schema ''{}'' ''out_schema'']
   \<and> TaskRun_validators (braces_env False) (io_run ''{}'' (Some ''{}'') ''{}'' (Some ''{}''))
     = (Inr (io_run ''{}'' (Some ''{}'') ''{}'' (Some ''{}'')), [])
   \<and> snd (TaskRun_validators (braces_env False) (io_run ''{}'' (Some ''{}'') ''{ }'' (Some ''{}'')))
     = [call_json_loads ''{ }'', call_validate_schema ''{ }'' ''out_schema'']"
proof -
  let ?calls = "[call_json_loads ''{}'', call_validate_schema ''{}'' ''in_schema'',
         call_json_loads ''{}'', call_validate_schema ''{}'' ''out_schema'']"
  have facts: "parent_task (io_run inp ci out co) = Some schema_task"
    "input_json_schema schema_task = Some ''in_schema''"
    "output_json_schema schema_task = Some ''out_schema''"
    "input (io_run inp ci out co) = inp" "last_validated_input (io_run inp ci out co) = ci"
    "output_field (run_output (io_run inp ci out co)) = out"
    "last_validated_output (io_run inp ci out co) = co"
    "loading_from_file (braces_env b) = b"
    for inp ci out co b
    by (simp_all add: io_run_def attached_run_def plain_run_def schema_task_def
        parent_task_def braces_env_def)
  have conf: "conforms (braces_env False) ''{}'' ''in_schema''"
    by (simp add: conforms_def braces_env_def)
  have loading: "snd (TaskRun_validators (braces_env True) (io_run ''{}'' None ''{}'' None)) = []"
    using change_cache[where e = "braces_env True" and self = "io_run ''{}'' None ''{}'' None"
        and task = schema_task
        and s = "io_run ''{}'' None ''{}'' None" and calls = "[]" and str = "''{}''"
        and schema = "''in_schema''"]
    by (simp add: facts)
  have calls: "snd (TaskRun_validators (braces_env False) (io_run ''{}'' ci out co))
      = (if ci = Some ''{}'' then [] else schema_calls (braces_env False) ''{}'' ''in_schema'')
        @ (if co = Some out then [] else schema_calls (braces_env False) out ''out_schema'')"
    for ci out co
    using change_cache[where e = "braces_env False" and self = "io_run ''{}'' ci out co"
        and task = schema_task
        and s = "io_run ''{}'' None ''{}'' None" and calls = "[]" and str = "''{}''"
        and schema = "''in_schema''"]
    by (simp add: facts conf)
  have repeated: "TaskRun_validators (braces_env False)
      (io_run ''{}'' (Some ''{}'') ''{}'' (Some ''{}''))
      = (Inr (io_run ''{}'' (Some ''{}'') ''{}'' (Some ''{}'')), [])"
  proof -
    note step = change_cache[where e = "braces_env False"
        and self = "io_run ''{}'' None ''{}'' None"
        and task = schema_task
        and s = "io_run ''{}'' (Some ''{}'') ''{}'' (Some ''{}'')" and calls = ?calls
        and str = "''{}''" and schema = "''in_schema''",
        THEN conjunct2, THEN conjunct2, THEN conjunct1]
    have "parent_task (io_run ''{}'' None ''{}'' None) \<noteq> None"
      by (simp add: facts)
    with step fresh_pass
    have "TaskRun_validators ((braces_env False)\<lparr>loading_from_file := False\<rparr>)
        (io_run ''{}'' (Some ''{}'') ''{}'' (Some ''{}''))
        = (Inr (io_run ''{}'' (Some ''{}'') ''{}'' (Some ''{}'')), [])"
      by blast
    moreover have "(braces_env False)\<lparr>loading_from_file := False\<rparr> = braces_env False"
      by (simp add: braces_env_def)
    ultimately show ?thesis by simp
  qed
  show ?thesis
    using loading calls[of None "''{}''" None] repeated calls[of "Some ''{}''" "''{ }''" "Some ''{}''"]
    by (simp add: schema_calls_def braces_env_def)
qed

text \<open>
  An input on which the claim as stated fails. The input \<^verbatim>\<open>in\<close> does not parse, so
  the pass ends with the error of the input check after one call of \<^verbatim>\<open>json.loads\<close>.
  The output \<^verbatim>\<open>{}\<close> is not the recorded one, and the parent task has an output
  schema, yet the output is not checked in this pass.
\<close>

theorem output_check_skipped_counterexample:
  "TaskRun_validators (braces_env False) (io_run ''in'' None ''{}'' None)
     = (Inl input_is_not_valid_json, [call_json_loads ''in''])
   \<and> parent_task (io_run ''in'' None ''{}'' None) = Some schema_task
   \<and> output_json_schema schema_task = Some ''out_schema''
   \<and> output_field (run_output (io_run ''in'' None ''{}'' None)) = ''{}''
   \<and> last_validated_output (io_run ''in'' None ''{}'' None) = None"
  by (simp add: TaskRun_validators_def then_checked_def validate_input_format_def
      check_against_schema_def parent_task_def io_run_def attached_run_def plain_run_def
      schema_task_def braces_env_def)

subsection \<open>The loop of build\_split\_contents\<close>

lemma py_round_nonneg: "0 \<le> x \<Longrightarrow> 0 \<le> py_round x"
  by (auto simp: py_round_def Let_def)

lemma round_binary64_nonneg: "0 \<le> x \<Longrightarrow> 0 \<le> round_binary64 x"
  by (auto simp: round_binary64_def Let_def intro!: mult_nonneg_nonneg py_round_nonneg divide_nonneg_nonneg)

lemma split_size_nonneg: "0 \<le> p \<Longrightarrow> 0 \<le> split_size n p"
  by (simp add: split_size_def fmul_def float_of_int_def py_round_nonneg round_binary64_nonneg)

lemma py_index_nonneg: "0 \<le> a \<Longrightarrow> py_index n a = min (nat a) n"
  by (auto simp: py_index_def)

lemma py_slice_nonneg:
  "0 \<le> a \<Longrightarrow> 0 \<le> s \<Longrightarrow> py_slice xs a (a + s) = take (nat s) (drop (nat a) xs)"
  by (auto simp: py_slice_def py_index_nonneg Let_def min_def nat_add_distrib)

lemma py_slice_from_nonneg: "0 \<le> a \<Longrightarrow> py_slice_from xs a = drop (nat a) xs"
  by (auto simp: py_slice_from_def py_index_nonneg min_def)

lemma split_loop_assigned:
  "split_loop ids ds st =
     \<lparr>contents = fold assign (loop_assigned ids (start_idx st) ds) (contents st),
      start_idx = start_idx st + sum_list (map (\<lambda>d. split_size (length ids) (percentage d)) ds),
      remaining_items =
        remaining_items st - sum_list (map (\<lambda>d. split_size (length ids) (percentage d)) ds)\<rparr>"
  by (induction ds arbitrary: st) (simp_all add: Let_def algebra_simps)

lemma loop_assigned_closed:
  "loop_assigned ids start ds =
     map (\<lambda>i. (name (ds ! i),
               py_slice ids
                 (start + sum_list (map (\<lambda>d. split_size (length ids) (percentage d)) (take i ds)))
                 (start + sum_list (map (\<lambda>d. split_size (length ids) (percentage d)) (take i ds))
                    + split_size (length ids) (percentage (ds ! i)))))
       [0..<length ds]"
proof (induction ds arbitrary: start)
  case Nil
  then show ?case by simp
next
  case (Cons d ds)
  have "[0..<length (d # ds)] = 0 # map Suc [0..<length ds]"
    by (simp add: upt_conv_Cons map_Suc_upt del: upt_Suc)
  then show ?case
    by (simp add: Cons.IH comp_def algebra_simps del: upt_Suc)
qed

lemma split_shuffled_fold:
  "split_shuffled ids ds =
     fold assign (map (\<lambda>i. (name (ds ! i), split_slice ids ds i)) [0..<length ds]) []"
proof (cases "ds = []")
  case True
  then show ?thesis by (simp add: split_shuffled_def)
next
  case False
  then obtain n where n: "length ds = Suc n" by (cases ds) auto
  have last: "last ds = ds ! n" using False n by (simp add: last_conv_nth)
  have bl: "butlast ds ! i = ds ! i" "take i (butlast ds) = take i ds" if "i < n" for i
    using that n by (simp_all add: nth_butlast take_butlast)
  have pre: "loop_assigned ids 0 (butlast ds) =
      map (\<lambda>i. (name (ds ! i), split_slice ids ds i)) [0..<n]"
    unfolding loop_assigned_closed
    by (rule map_cong[OF _ ]) (auto simp: n bl split_slice_def split_start_def Let_def)
  have sum: "sum_list (map (\<lambda>d. split_size (length ids) (percentage d)) (butlast ds))
      = split_start (length ids) ds n"
    using n by (simp add: split_start_def butlast_conv_take)
  show ?thesis
    using False
    by (simp add: split_shuffled_def split_loop_assigned pre n last sum split_slice_def Let_def)
qed

lemma fold_assign_distinct:
  "distinct (map fst kvs) \<Longrightarrow> fst ` set kvs \<inter> fst ` set al = {} \<Longrightarrow>
     fold assign kvs al = al @ kvs"
proof (induction kvs arbitrary: al)
  case Nil
  then show ?case by simp
next
  case (Cons kv kvs)
  have new: "fst kv \<notin> fst ` set al" using Cons.prems(2) by auto
  then have upd: "AList.update (fst kv) (snd kv) al = al @ [kv]"
    by (induction al) auto
  have "fold assign kvs (al @ [kv]) = (al @ [kv]) @ kvs"
    using Cons.prems by (intro Cons.IH) auto
  then show ?case by (simp add: upd)
qed

lemma map_of_fold_assign:
  "map_of (fold assign kvs al) = map_of al ++ map_of (rev kvs)"
proof (induction kvs arbitrary: al)
  case Nil
  then show ?case by simp
next
  case (Cons kv kvs)
  show ?case
    by (auto simp: Cons.IH update_conv' fun_eq_iff map_add_def split: option.splits)
qed

lemma distinct_fold_assign:
  "distinct (map fst al) \<Longrightarrow> distinct (map fst (fold assign kvs al))"
  by (induction kvs arbitrary: al) (simp_all add: distinct_update)

lemma map_of_rev_last:
  assumes "i < length kvs" and "\<forall>j. i < j \<and> j < length kvs \<longrightarrow> fst (kvs ! j) \<noteq> fst (kvs ! i)"
  shows "map_of (rev kvs) (fst (kvs ! i)) = Some (snd (kvs ! i))"
  using assms
proof (induction kvs arbitrary: i rule: rev_induct)
  case Nil
  then show ?case by simp
next
  case (snoc kv kvs)
  show ?case
  proof (cases "i = length kvs")
    case True
    then show ?thesis by simp
  next
    case False
    with snoc.prems(1) have i: "i < length kvs" by simp
    have ne: "fst kv \<noteq> fst (kvs ! i)"
      using snoc.prems(2)[rule_format, of "length kvs"] i by (simp add: nth_append)
    have "map_of (rev kvs) (fst (kvs ! i)) = Some (snd (kvs ! i))"
    proof (rule snoc.IH[OF i], intro allI impI)
      fix j assume "i < j \<and> j < length kvs"
      then show "fst (kvs ! j) \<noteq> fst (kvs ! i)"
        using snoc.prems(2)[rule_format, of j] by (simp add: nth_append)
    qed
    with i ne show ?thesis by (simp add: nth_append)
  qed
qed

lemma in_fold_assign_last:
  assumes "(k, v) \<in> set (fold assign kvs [])"
  shows "\<exists>i < length kvs. kvs ! i = (k, v)
           \<and> (\<forall>j. i < j \<and> j < length kvs \<longrightarrow> fst (kvs ! j) \<noteq> k)"
proof -
  have "map_of (fold assign kvs []) k = Some v"
    using assms distinct_fold_assign[of "[]" kvs] by simp
  then have m: "map_of (rev kvs) k = Some v"
    by (simp add: map_of_fold_assign)
  then show ?thesis
  proof (induction kvs rule: rev_induct)
    case Nil
    then show ?case by simp
  next
    case (snoc kv kvs)
    show ?case
    proof (cases "fst kv = k")
      case True
      with snoc.prems have "kv = (k, v)" by (cases kv) simp
      then show ?thesis
        by (intro exI[of _ "length kvs"]) auto
    next
      case False
      with snoc.prems have "map_of (rev kvs) k = Some v" by simp
      from snoc.IH[OF this] obtain i where
        i: "i < length kvs" "kvs ! i = (k, v)"
          "\<forall>j. i < j \<and> j < length kvs \<longrightarrow> fst (kvs ! j) \<noteq> k"
        by blast
      show ?thesis
      proof (intro exI[of _ i] conjI allI impI)
        show "i < length (kvs @ [kv])" using i(1) by simp
        show "(kvs @ [kv]) ! i = (k, v)" using i(1,2) by (simp add: nth_append)
        fix j assume "i < j \<and> j < length (kvs @ [kv])"
        then show "fst ((kvs @ [kv]) ! j) \<noteq> k"
          using i(3) False by (cases "j = length kvs") (auto simp: nth_append)
      qed
    qed
  qed
qed

lemma split_start_nonneg:
  "\<forall>d \<in> set ds. 0 \<le> percentage d \<Longrightarrow> 0 \<le> split_start n ds i"
  unfolding split_start_def
  by (intro sum_list_nonneg) (auto dest!: in_set_takeD simp: split_size_nonneg)

lemma split_start_Suc:
  "i < length ds \<Longrightarrow>
     split_start n ds (Suc i) = split_start n ds i + split_size n (percentage (ds ! i))"
  by (simp add: split_start_def take_Suc_conv_app_nth)

lemma split_slice_nonneg:
  assumes "\<forall>d \<in> set ds. 0 \<le> percentage d" "i < length ds"
  shows "split_slice ids ds i =
           (if i + 1 < length ds
              then take (nat (split_size (length ids) (percentage (ds ! i))))
                     (drop (nat (split_start (length ids) ds i)) ids)
            else drop (nat (split_start (length ids) ds i)) ids)"
  using assms split_start_nonneg[OF assms(1), of "length ids" i]
  by (simp add: split_slice_def Let_def py_slice_nonneg py_slice_from_nonneg split_size_nonneg)

lemma concat_slices_prefix:
  assumes "\<forall>d \<in> set ds. 0 \<le> percentage d" "k < length ds"
  shows "concat (map (split_slice ids ds) [0..<k]) = take (nat (split_start (length ids) ds k)) ids"
  using assms(2)
proof (induction k)
  case 0
  then show ?case by (simp add: split_start_def)
next
  case (Suc k)
  then have k: "k < length ds" "k + 1 < length ds" by simp_all
  have nn: "0 \<le> split_start (length ids) ds k"
    "0 \<le> split_size (length ids) (percentage (ds ! k))"
    using assms(1) k by (simp_all add: split_start_nonneg split_size_nonneg)
  have "concat (map (split_slice ids ds) [0..<Suc k]) =
      take (nat (split_start (length ids) ds k)) ids
        @ take (nat (split_size (length ids) (percentage (ds ! k))))
            (drop (nat (split_start (length ids) ds k)) ids)"
    using Suc.IH k split_slice_nonneg[OF assms(1) k(1), of ids] by simp
  also have "\<dots> = take (nat (split_start (length ids) ds k)
                        + nat (split_size (length ids) (percentage (ds ! k)))) ids"
    by (simp add: take_add)
  also have "\<dots> = take (nat (split_start (length ids) ds (Suc k))) ids"
    using nn k by (simp add: split_start_Suc nat_add_distrib)
  finally show ?case .
qed

lemma concat_slices:
  assumes "\<forall>d \<in> set ds. 0 \<le> percentage d" "ds \<noteq> []"
  shows "concat (map (split_slice ids ds) [0..<length ds]) = ids"
proof -
  from assms(2) obtain n where n: "length ds = Suc n" by (cases ds) auto
  have "concat (map (split_slice ids ds) [0..<length ds]) =
      concat (map (split_slice ids ds) [0..<n]) @ split_slice ids ds n"
    by (simp add: n)
  also have "\<dots> = take (nat (split_start (length ids) ds n)) ids
      @ drop (nat (split_start (length ids) ds n)) ids"
    using concat_slices_prefix[OF assms(1), of n ids] split_slice_nonneg[OF assms(1), of n ids] n
    by simp
  finally show ?thesis by simp
qed

subsection \<open>Split contents\<close>

lemma build_split_contents_fold:
  "build_split_contents shuffle runs task ds flt =
     fold assign
       (map (\<lambda>i. (name (ds ! i),
                  split_slice (shuffle (map id_field (filter flt (runs task)))) ds i))
          [0..<length ds]) []"
  by (simp add: build_split_contents_def split_shuffled_fold)

lemma build_split_contents_distinct:
  assumes "distinct (map name ds)"
  shows "build_split_contents shuffle runs task ds flt =
     map (\<lambda>i. (name (ds ! i),
                split_slice (shuffle (map id_field (filter flt (runs task)))) ds i))
       [0..<length ds]"
proof -
  have "map fst (map (\<lambda>i. (name (ds ! i),
            split_slice (shuffle (map id_field (filter flt (runs task)))) ds i))
          [0..<length ds]) = map name ds"
    by (rule nth_equalityI) simp_all
  with assms show ?thesis
    unfolding build_split_contents_fold
    by (subst fold_assign_distinct) simp_all
qed

lemma not_isclose_0: "\<not> isclose 0 1 rel_tol_1e_9"
  by code_simp

lemma sum_to_one_nonempty:
  "isclose (py_sum (map percentage ds)) 1 rel_tol_1e_9 \<Longrightarrow> ds \<noteq> []"
  using not_isclose_0 by (auto simp: py_sum_def)

lemma sum_train_test: "py_sum [round_binary64 (4 / 5), round_binary64 (1 / 5)] = 1"
  by code_simp

lemma split_size_10_08: "split_size 10 (round_binary64 (4 / 5)) = 8"
  by code_simp

text \<open>
  Claim C1, as the code has it. Let the percentages be non-negative (the field is
  declared with \<^verbatim>\<open>ge=0.0\<close>) and sum to 1.0 as \<^verbatim>\<open>validate_split_percentages\<close> checks
  it, the names of the split definitions be pairwise distinct, and \<open>ids\<close> be the
  shuffled list of the IDs of the runs that pass the filter. Then the result lists
  the names in the order of the definitions; a definition other than the last gets
  the slice that starts where the sizes \<^verbatim>\<open>round(len(valid_ids) * percentage)\<close> of
  the earlier definitions add up to and has that many IDs as its own size, or as
  many as are left; the last definition gets everything from its start on. A slice
  that ends within the list has exactly its size. The lists of the result, one
  after the other, are \<open>ids\<close>: every filtered ID is in the result as often as
  among the filtered runs, for every shuffle.
\<close>

theorem split_contents_of_distinct_names:
  assumes "\<forall>d \<in> set split_defs. 0 \<le> percentage d"
    and "distinct (map name split_defs)"
    and "mset (shuffle (map id_field (filter flt (runs task))))
           = mset (map id_field (filter flt (runs task)))"
    and "ids = shuffle (map id_field (filter flt (runs task)))"
    and "isclose (py_sum (map percentage split_defs)) 1 rel_tol_1e_9"
  shows
    "build_split_contents shuffle runs task split_defs flt =
       map (\<lambda>i. (name (split_defs ! i),
                  if i + 1 < length split_defs
                    then take (nat (split_size (length ids) (percentage (split_defs ! i))))
                           (drop (nat (split_start (length ids) split_defs i)) ids)
                  else drop (nat (split_start (length ids) split_defs i)) ids))
         [0..<length split_defs]
     \<and> (\<forall>i. i + 1 < length split_defs
             \<and> split_start (length ids) split_defs (Suc i) \<le> int (length ids) \<longrightarrow>
           int (length (snd (build_split_contents shuffle runs task split_defs flt ! i)))
             = split_size (length ids) (percentage (split_defs ! i)))
     \<and> concat (map snd (build_split_contents shuffle runs task split_defs flt)) = ids
     \<and> mset (concat (map snd (build_split_contents shuffle runs task split_defs flt)))
         = mset (map id_field (filter flt (runs task)))"
proof -
  let ?res = "build_split_contents shuffle runs task split_defs flt"
  have res: "?res = map (\<lambda>i. (name (split_defs ! i), split_slice ids split_defs i))
                      [0..<length split_defs]"
    using build_split_contents_distinct[OF assms(2)] assms(4) by simp
  have closed: "?res = map (\<lambda>i. (name (split_defs ! i),
                  if i + 1 < length split_defs
                    then take (nat (split_size (length ids) (percentage (split_defs ! i))))
                           (drop (nat (split_start (length ids) split_defs i)) ids)
                  else drop (nat (split_start (length ids) split_defs i)) ids))
         [0..<length split_defs]"
    unfolding res
    by (rule map_cong[OF refl]) (simp add: split_slice_nonneg[OF assms(1)])
  have count: "int (length (snd (?res ! i))) = split_size (length ids) (percentage (split_defs ! i))"
    if "i + 1 < length split_defs"
      "split_start (length ids) split_defs (Suc i) \<le> int (length ids)" for i
  proof -
    have i: "i < length split_defs" using that(1) by simp
    have nn: "0 \<le> split_start (length ids) split_defs i"
      "0 \<le> split_size (length ids) (percentage (split_defs ! i))"
      using assms(1) i by (simp_all add: split_start_nonneg split_size_nonneg)
    have "snd (?res ! i) = take (nat (split_size (length ids) (percentage (split_defs ! i))))
                           (drop (nat (split_start (length ids) split_defs i)) ids)"
      unfolding closed using that(1) i by simp
    moreover have "nat (split_start (length ids) split_defs i)
        + nat (split_size (length ids) (percentage (split_defs ! i))) \<le> length ids"
      using that(2) nn by (simp add: split_start_Suc[OF i])
    ultimately show ?thesis using nn by simp
  qed
  have ne: "split_defs \<noteq> []"
    using assms(5) by (rule sum_to_one_nonempty)
  have concat: "concat (map snd ?res) = ids"
    using concat_slices[OF assms(1) ne, of ids] unfolding res by (simp add: comp_def)
  show ?thesis
    using closed count concat assms(3,4) by auto
qed

text \<open>
  Ten runs, shuffled here by reversing, with \<^verbatim>\<open>[("train", 0.8), ("test", 0.2)]\<close>:
  eight IDs for \<^verbatim>\<open>train\<close>, the other two for \<^verbatim>\<open>test\<close>.
\<close>

theorem split_contents_of_distinct_names_witness:
  "build_split_contents rev (runs_named ''0123456789'') schemaless_task
     [split_def ''train'' (round_binary64 (4 / 5)), split_def ''test'' (round_binary64 (1 / 5))]
     (\<lambda>task_run. True)
   = [(''train'', [''9'', ''8'', ''7'', ''6'', ''5'', ''4'', ''3'', ''2'']),
      (''test'', [''1'', ''0''])]"
proof -
  let ?ds = "[split_def ''train'' (round_binary64 (4 / 5)), split_def ''test'' (round_binary64 (1 / 5))]"
  let ?valid = "map id_field (filter (\<lambda>task_run. True) (runs_named ''0123456789'' schemaless_task))"
  have nonneg: "\<forall>d \<in> set ?ds. 0 \<le> percentage d"
    by (simp add: split_def_def round_binary64_nonneg)
  have names: "distinct (map name ?ds)"
    by (simp add: split_def_def)
  have perm: "mset (rev ?valid) = mset ?valid"
    by simp
  have one: "isclose (py_sum (map percentage ?ds)) 1 rel_tol_1e_9"
    by (simp add: split_def_def sum_train_test isclose_def)
  let ?ids = "[''9'', ''8'', ''7'', ''6'', ''5'', ''4'', ''3'', ''2'', ''1'', ''0'']"
  have len: "length (rev ?valid) = 10"
    by (simp add: runs_named_def)
  have ids: "rev ?valid = ?ids"
    by (simp add: runs_named_def plain_run_def)
  note main = split_contents_of_distinct_names[where split_defs = ?ds and shuffle = rev
        and flt = "\<lambda>task_run. True" and runs = "runs_named ''0123456789''"
        and task = schemaless_task and ids = "rev ?valid", OF nonneg names perm refl one,
        THEN conjunct1, unfolded len, unfolded ids]
  show ?thesis
    unfolding main
    by (simp add: split_def_def split_start_def split_size_10_08 upt_conv_Cons)
qed

text \<open>
  Two inputs on which the claim as stated fails, both with percentages whose sum is
  exactly 1.0. With two definitions of one name the result has one list, and the ID
  sliced for the first definition is in none. With the percentages 0.5, 0.5 and 0.0
  over three IDs, \<^verbatim>\<open>round(1.5)\<close> is 2 for both of the first two definitions, and
  the second gets the one ID that is left, not two.
\<close>

theorem split_contents_counterexample:
  "build_split_contents (\<lambda>valid_ids. valid_ids) (runs_named ''AB'') schemaless_task
     [split_def ''a'' (1 / 2), split_def ''a'' (1 / 2)] (\<lambda>task_run. True)
     = [(''a'', [''B''])]
   \<and> py_sum [1 / 2, 1 / 2] = 1
   \<and> build_split_contents (\<lambda>valid_ids. valid_ids) (runs_named ''ABC'') schemaless_task
     [split_def ''a'' (1 / 2), split_def ''b'' (1 / 2), split_def ''c'' 0] (\<lambda>task_run. True)
     = [(''a'', [''A'', ''B'']), (''b'', [''C'']), (''c'', [])]
   \<and> split_size 3 (1 / 2) = 2
   \<and> py_sum [1 / 2, 1 / 2, 0] = 1"
  by code_simp

lemma distinct_concat_nth:
  assumes "distinct (concat xss)" "i < k" "k < length xss"
  shows "set (xss ! i) \<inter> set (xss ! k) = {}"
proof -
  have i: "i < length xss" using assms(2,3) by simp
  have split: "xss = take i xss @ (xss ! i) # drop (Suc i) xss"
    using i by (simp add: id_take_nth_drop)
  have "xss ! k \<in> set (drop (Suc i) xss)"
    using assms(2,3) by (auto simp: in_set_conv_nth intro!: exI[of _ "k - Suc i"])
  moreover have "distinct (concat (take i xss) @ xss ! i @ concat (drop (Suc i) xss))"
    using assms(1) by (subst (asm) split) simp
  ultimately show ?thesis by auto
qed

lemma mset_final_overwritten:
  "mset (final_assigned kvs) + mset (overwritten kvs) = mset kvs"
  by (induction kvs) auto

lemma keys_final_assigned: "fst ` set (final_assigned kvs) = fst ` set kvs"
  by (induction kvs) auto

lemma distinct_final_assigned: "distinct (map fst (final_assigned kvs))"
  by (induction kvs) (auto simp: keys_final_assigned)

lemma map_of_final_assigned: "map_of (final_assigned kvs) = map_of (rev kvs)"
proof (induction kvs)
  case Nil
  then show ?case by simp
next
  case (Cons kv kvs)
  show ?case
  proof (cases "fst kv \<in> fst ` set kvs")
    case True
    then have "map_of (rev kvs) (fst kv) \<noteq> None"
      by (simp add: map_of_eq_None_iff)
    then show ?thesis
      using True Cons.IH by (auto simp: fun_eq_iff map_add_def split: option.splits)
  next
    case False
    then have "map_of (rev kvs) (fst kv) = None"
      by (simp add: map_of_eq_None_iff)
    then show ?thesis
      using False Cons.IH by (auto simp: fun_eq_iff map_add_def split: option.splits)
  qed
qed

lemma mset_fold_assign: "mset (fold assign kvs []) = mset (final_assigned kvs)"
proof -
  have d1: "distinct (map fst (fold assign kvs []))"
    using distinct_fold_assign[of "[]" kvs] by simp
  have d2: "distinct (map fst (final_assigned kvs))"
    by (rule distinct_final_assigned)
  have "map_of (fold assign kvs []) = map_of (final_assigned kvs)"
    by (simp add: map_of_fold_assign map_of_final_assigned)
  then have "set (fold assign kvs []) = set (final_assigned kvs)"
    using map_of_inject_set[OF d1 d2] by simp
  moreover have "distinct (fold assign kvs [])" "distinct (final_assigned kvs)"
    using d1 d2 by (auto simp: distinct_map)
  ultimately show ?thesis
    by (simp add: set_eq_iff_mset_eq_distinct)
qed

lemma mset_concat_snd:
  "mset (concat (map snd kvs)) = sum_mset (image_mset (\<lambda>kv. mset (snd kv)) (mset kvs))"
  by (induction kvs) auto

lemma mset_concat_fold_assign:
  "mset (concat (map snd (fold assign kvs [])))
     + mset (concat (map snd (overwritten kvs)))
   = mset (concat (map snd kvs))"
proof -
  have "mset (concat (map snd (fold assign kvs []))) + mset (concat (map snd (overwritten kvs)))
      = sum_mset (image_mset (\<lambda>kv. mset (snd kv))
          (mset (final_assigned kvs) + mset (overwritten kvs)))"
    by (simp add: mset_concat_snd mset_fold_assign)
  then show ?thesis
    by (simp only: mset_final_overwritten mset_concat_snd)
qed

text \<open>
  Claim C10, as the code has it. Under a name, the result of
  \<^verbatim>\<open>build_split_contents\<close> holds the slice computed for the last definition of that
  name. When the IDs are pairwise distinct, no ID of the slice computed for a
  definition whose name a later definition has too is in any list of the result.
  With pairwise distinct names (and at least one definition) the lists of the
  result, one after the other, are the shuffled IDs. With any names (and at least
  one definition) the IDs in the lists of the result and the IDs in the overwritten
  slices are, taken together, the shuffled IDs, each as often as there; hence
  the result holds every shuffled ID as often as it is shuffled exactly when every
  overwritten slice is empty.
\<close>

theorem duplicate_split_names:
  assumes "\<forall>d \<in> set split_defs. 0 \<le> percentage d"
    and "ids = shuffle (map id_field (filter flt (runs task)))"
  shows
    "(\<forall>i < length split_defs.
        (\<forall>j. i < j \<and> j < length split_defs \<longrightarrow> name (split_defs ! j) \<noteq> name (split_defs ! i)) \<longrightarrow>
        map_of (build_split_contents shuffle runs task split_defs flt) (name (split_defs ! i))
          = Some (split_slice ids split_defs i))
     \<and> (distinct ids \<longrightarrow>
          (\<forall>i j. i < j \<and> j < length split_defs \<and> name (split_defs ! i) = name (split_defs ! j) \<longrightarrow>
             (\<forall>x \<in> set (split_slice ids split_defs i).
                \<forall>kv \<in> set (build_split_contents shuffle runs task split_defs flt).
                  x \<notin> set (snd kv))))
     \<and> (distinct (map name split_defs) \<and> split_defs \<noteq> [] \<longrightarrow>
          concat (map snd (build_split_contents shuffle runs task split_defs flt)) = ids)
     \<and> (split_defs \<noteq> [] \<longrightarrow>
          mset (concat (map snd (build_split_contents shuffle runs task split_defs flt)))
            + mset (concat (map snd (overwritten (assignments ids split_defs))))
          = mset ids
        \<and> (mset (concat (map snd (build_split_contents shuffle runs task split_defs flt)))
             = mset ids
           \<longleftrightarrow> concat (map snd (overwritten (assignments ids split_defs))) = []))"
proof -
  let ?res = "build_split_contents shuffle runs task split_defs flt"
  let ?kvs = "map (\<lambda>i. (name (split_defs ! i), split_slice ids split_defs i))
                [0..<length split_defs]"
  have res: "?res = fold assign ?kvs []"
    using assms(2) by (simp add: build_split_contents_fold)
  have last_wins: "map_of ?res (name (split_defs ! i)) = Some (split_slice ids split_defs i)"
    if "i < length split_defs"
      "\<forall>j. i < j \<and> j < length split_defs \<longrightarrow> name (split_defs ! j) \<noteq> name (split_defs ! i)"
    for i
    using map_of_rev_last[of i ?kvs] that
    by (simp add: res map_of_fold_assign)
  have lost: "x \<notin> set (snd kv)"
    if "distinct ids" "i < j" "j < length split_defs"
      "name (split_defs ! i) = name (split_defs ! j)"
      "x \<in> set (split_slice ids split_defs i)" "kv \<in> set ?res" for i j x kv
  proof
    assume x: "x \<in> set (snd kv)"
    from that(6) have "(fst kv, snd kv) \<in> set (fold assign ?kvs [])" by (simp add: res)
    from in_fold_assign_last[OF this] obtain k where
      k: "k < length split_defs" "?kvs ! k = kv"
        "\<forall>j. k < j \<and> j < length ?kvs \<longrightarrow> fst (?kvs ! j) \<noteq> fst kv"
      by auto
    have kv: "kv = (name (split_defs ! k), split_slice ids split_defs k)"
      using k(1,2) by simp
    have "k \<noteq> i"
    proof
      assume "k = i"
      with k(3)[rule_format, of j] that(2,3,4) kv show False by simp
    qed
    have ne: "split_defs \<noteq> []" using that(3) by auto
    have "distinct (concat (map (split_slice ids split_defs) [0..<length split_defs]))"
      using concat_slices[OF assms(1) ne, of ids] that(1) by simp
    then have disjoint: "set (split_slice ids split_defs a) \<inter> set (split_slice ids split_defs b) = {}"
      if "a < b" "b < length split_defs" for a b
      using distinct_concat_nth[of "map (split_slice ids split_defs) [0..<length split_defs]" a b]
        that by simp
    have "i < length split_defs" using that(2,3) by simp
    with \<open>k \<noteq> i\<close> k(1) disjoint[of i k] disjoint[of k i] that(5) x kv
    show False by (cases "i < k") auto
  qed
  have whole: "concat (map snd ?res) = ids"
    if "distinct (map name split_defs)" "split_defs \<noteq> []"
  proof -
    have "?res = ?kvs"
      using build_split_contents_distinct[OF that(1), of shuffle runs task flt] assms(2) by simp
    then show ?thesis
      using concat_slices[OF assms(1) that(2), of ids] by (simp add: comp_def)
  qed
  have sum: "mset (concat (map snd ?res))
      + mset (concat (map snd (overwritten (assignments ids split_defs)))) = mset ids"
    if "split_defs \<noteq> []"
  proof -
    have "mset (concat (map snd ?res))
        + mset (concat (map snd (overwritten (assignments ids split_defs))))
        = mset (concat (map snd (assignments ids split_defs)))"
      unfolding res assignments_def[symmetric] by (rule mset_concat_fold_assign)
    also have "concat (map snd (assignments ids split_defs)) = ids"
      using concat_slices[OF assms(1) that, of ids] by (simp add: assignments_def comp_def)
    finally show ?thesis .
  qed
  have exact: "mset (concat (map snd ?res)) = mset ids
      \<longleftrightarrow> concat (map snd (overwritten (assignments ids split_defs))) = []"
    if "split_defs \<noteq> []"
  proof -
    have "mset (concat (map snd ?res)) = mset ids
        \<longleftrightarrow> mset (concat (map snd (overwritten (assignments ids split_defs)))) = {#}"
      using sum[OF that] by (metis add_cancel_left_right add_cancel_right_right)
    then show ?thesis by simp
  qed
  show ?thesis
    using last_wins lost whole sum exact by blast
qed

text \<open>
  Two definitions named \<^verbatim>\<open>a\<close> over the runs A and B: the result holds B under
  \<^verbatim>\<open>a\<close>, and A is in no list. With the names \<^verbatim>\<open>a\<close> and \<^verbatim>\<open>b\<close> both IDs are there.
  With the two definitions named \<^verbatim>\<open>a\<close> the IDs of the result and the overwritten A
  are A and B; when their percentages are 0.0 and 1.0 the overwritten slice is empty
  and the result holds both IDs.
\<close>

theorem duplicate_split_names_witness:
  "map_of (build_split_contents (\<lambda>valid_ids. valid_ids) (runs_named ''AB'') schemaless_task
             [split_def ''a'' (1 / 2), split_def ''a'' (1 / 2)] (\<lambda>task_run. True)) ''a''
     = Some [''B'']
   \<and> ''A'' \<notin> set (concat (map snd
              (build_split_contents (\<lambda>valid_ids. valid_ids) (runs_named ''AB'')
                 schemaless_task [split_def ''a'' (1 / 2), split_def ''a'' (1 / 2)]
                 (\<lambda>task_run. True))))
   \<and> concat (map snd (build_split_contents (\<lambda>valid_ids. valid_ids) (runs_named ''AB'')
                        schemaless_task [split_def ''a'' (1 / 2), split_def ''b'' (1 / 2)]
                        (\<lambda>task_run. True)))
     = [''A'', ''B'']
   \<and> mset (concat (map snd (build_split_contents (\<lambda>valid_ids. valid_ids) (runs_named ''AB'')
                        schemaless_task [split_def ''a'' (1 / 2), split_def ''a'' (1 / 2)]
                        (\<lambda>task_run. True))))
       + mset [''A'']
     = mset [''A'', ''B'']
   \<and> mset (concat (map snd (build_split_contents (\<lambda>valid_ids. valid_ids) (runs_named ''AB'')
                        schemaless_task [split_def ''a'' 0, split_def ''a'' 1]
                        (\<lambda>task_run. True))))
     = mset [''A'', ''B'']"
proof -
  let ?dup = "[split_def ''a'' (1 / 2), split_def ''a'' (1 / 2)]"
  let ?ok = "[split_def ''a'' (1 / 2), split_def ''b'' (1 / 2)]"
  let ?zero = "[split_def ''a'' 0, split_def ''a'' 1]"
  let ?valid = "map id_field (filter (\<lambda>task_run. True) (runs_named ''AB'' schemaless_task))"
  have ids: "?valid = [''A'', ''B'']"
    by (simp add: runs_named_def plain_run_def)
  have nonneg: "\<forall>d \<in> set ?dup. 0 \<le> percentage d" "\<forall>d \<in> set ?ok. 0 \<le> percentage d"
    "\<forall>d \<in> set ?zero. 0 \<le> percentage d"
    by (simp_all add: split_def_def)
  have slices: "split_slice [''A'', ''B''] ?dup 0 = [''A'']"
    "split_slice [''A'', ''B''] ?dup (Suc 0) = [''B'']"
    by code_simp+
  note slices' = slices[unfolded split_def_def]
  have lost_dup: "concat (map snd (overwritten (assignments [''A'', ''B''] ?dup))) = [''A'']"
    by code_simp
  have lost_zero: "concat (map snd (overwritten (assignments [''A'', ''B''] ?zero))) = []"
    by code_simp
  note dup = duplicate_split_names[where split_defs = ?dup and shuffle = "\<lambda>valid_ids. valid_ids"
      and flt = "\<lambda>task_run. True" and runs = "runs_named ''AB''" and task = schemaless_task
      and ids = ?valid, OF nonneg(1) refl, unfolded ids]
  note ok = duplicate_split_names[where split_defs = ?ok and shuffle = "\<lambda>valid_ids. valid_ids"
      and flt = "\<lambda>task_run. True" and runs = "runs_named ''AB''" and task = schemaless_task
      and ids = ?valid, OF nonneg(2) refl, unfolded ids]
  note zero = duplicate_split_names[where split_defs = ?zero and shuffle = "\<lambda>valid_ids. valid_ids"
      and flt = "\<lambda>task_run. True" and runs = "runs_named ''AB''" and task = schemaless_task
      and ids = ?valid, OF nonneg(3) refl, unfolded ids]
  have a: "map_of (build_split_contents (\<lambda>valid_ids. valid_ids) (runs_named ''AB'') schemaless_task
             ?dup (\<lambda>task_run. True)) ''a'' = Some [''B'']"
  proof -
    have "\<forall>j. 1 < j \<and> j < length ?dup \<longrightarrow> name (?dup ! j) \<noteq> name (?dup ! 1)"
      by simp
    moreover have "1 < length ?dup" by simp
    ultimately have "map_of (build_split_contents (\<lambda>valid_ids. valid_ids) (runs_named ''AB'')
        schemaless_task ?dup (\<lambda>task_run. True)) (name (?dup ! 1))
        = Some (split_slice [''A'', ''B''] ?dup 1)"
      using dup[THEN conjunct1] by blast
    then show ?thesis by (simp add: slices' split_def_def)
  qed
  have b: "\<forall>kv \<in> set (build_split_contents (\<lambda>valid_ids. valid_ids) (runs_named ''AB'')
                     schemaless_task ?dup (\<lambda>task_run. True)). ''A'' \<notin> set (snd kv)"
    using dup[THEN conjunct2, THEN conjunct1, rule_format, of 0 1 "''A''"]
    by (auto simp: slices' split_def_def)
  have c: "concat (map snd (build_split_contents (\<lambda>valid_ids. valid_ids) (runs_named ''AB'')
                        schemaless_task ?ok (\<lambda>task_run. True))) = [''A'', ''B'']"
    using ok[THEN conjunct2, THEN conjunct2, THEN conjunct1] by (simp add: split_def_def)
  from b have b': "''A'' \<notin> set (concat (map snd
              (build_split_contents (\<lambda>valid_ids. valid_ids) (runs_named ''AB'')
                 schemaless_task ?dup (\<lambda>task_run. True))))"
    by auto
  have d: "mset (concat (map snd (build_split_contents (\<lambda>valid_ids. valid_ids) (runs_named ''AB'')
                        schemaless_task ?dup (\<lambda>task_run. True))))
       + mset [''A''] = mset [''A'', ''B'']"
  proof -
    have "?dup \<noteq> []" by simp
    then have "mset (concat (map snd (build_split_contents (\<lambda>valid_ids. valid_ids)
          (runs_named ''AB'') schemaless_task ?dup (\<lambda>task_run. True))))
        + mset (concat (map snd (overwritten (assignments [''A'', ''B''] ?dup))))
        = mset [''A'', ''B'']"
      using dup[THEN conjunct2, THEN conjunct2, THEN conjunct2] by blast
    then show ?thesis by (simp only: lost_dup)
  qed
  have e: "mset (concat (map snd (build_split_contents (\<lambda>valid_ids. valid_ids) (runs_named ''AB'')
                        schemaless_task ?zero (\<lambda>task_run. True))))
       = mset [''A'', ''B'']"
  proof -
    have "?zero \<noteq> []" by simp
    then have "mset (concat (map snd (build_split_contents (\<lambda>valid_ids. valid_ids)
          (runs_named ''AB'') schemaless_task ?zero (\<lambda>task_run. True)))) = mset [''A'', ''B'']
        \<longleftrightarrow> concat (map snd (overwritten (assignments [''A'', ''B''] ?zero))) = []"
      using zero[THEN conjunct2, THEN conjunct2, THEN conjunct2] by blast
    then show ?thesis by (simp only: lost_zero)
  qed
  from a b' c d e show ?thesis by blast
qed

text \<open>
  Two inputs on which the claim as stated fails. The definitions \<^verbatim>\<open>("a", 0.0)\<close> and
  \<^verbatim>\<open>("a", 1.0)\<close> share their name, yet over the runs A and B the result is
  \<^verbatim>\<open>{"a": ["A", "B"]}\<close>: every run is in exactly one list. Over two runs that both
  have the ID A, with two definitions \<^verbatim>\<open>("a", 0.5)\<close>, the slice computed for the first
  definition is \<^verbatim>\<open>["A"]\<close>, and the result holds A.
\<close>

theorem duplicate_split_names_counterexample:
  "build_split_contents (\<lambda>valid_ids. valid_ids) (runs_named ''AB'') schemaless_task
     [split_def ''a'' 0, split_def ''a'' 1] (\<lambda>task_run. True)
     = [(''a'', [''A'', ''B''])]
   \<and> build_split_contents (\<lambda>valid_ids. valid_ids) (runs_named ''AA'') schemaless_task
     [split_def ''a'' (1 / 2), split_def ''a'' (1 / 2)] (\<lambda>task_run. True)
     = [(''a'', [''A''])]
   \<and> split_slice [''A'', ''A''] [split_def ''a'' (1 / 2), split_def ''a'' (1 / 2)] 0 = [''A'']"
  by code_simp

subsection \<open>Rounding errors of the float operations\<close>













subsection \<open>The sum of the split percentages\<close>





end
